theory Spec2Isabelle
  imports Complex_Main "HOL-Library.Sublist" "HOL-Library.Char_ord" "HOL-Library.List_Lexorder"
begin

section \<open>Emergency / transit signal arbitration: a model of scripts/ems_priority.py\<close>

text \<open>
  The controller in \<^verbatim>\<open>scripts/ems_priority.py\<close> runs once per simulation step.  It
  reads the vehicles from the simulator (TraCI), decides for every touched traffic light
  (TLS) which links are forced green, and writes a state string such as \<^verbatim>\<open>rGrr\<close>.

  The simulator is the environment.  One step's answers are collected in a record
  \<open>world\<close> whose fields are named after the TraCI calls.  Python exceptions are values of
  type \<open>error\<close>.  Distances are floating point numbers in the source; the code only
  compares them with constants, so they are modelled as reals.  The CSV logs and the
  dictionary \<^verbatim>\<open>preempt_until\<close> are written but never read by a decision; they are left
  out, except for the row written to the event log.
\<close>

subsection \<open>Data\<close>

type_synonym tls_id = string
type_synonym veh_id = string

text \<open>A controlled link: (incoming lane, outgoing lane, via lane).\<close>
type_synonym link = "string \<times> string \<times> string"

datatype error = IndexError | KeyError

definition EMS_DIST :: real where
  "EMS_DIST = 75"

definition TRAIN_WARN_DIST :: real where
  "TRAIN_WARN_DIST = 180"

definition TRAIN_HOLD_MAX :: int where
  "TRAIN_HOLD_MAX = 12"

definition PULSE :: real where
  "PULSE = 0.8"

text \<open>The dictionary returned by \<^verbatim>\<open>analyze_tls\<close>; the key \<^verbatim>\<open>n\<close> is the field \<open>n_links\<close>.\<close>
record meta =
  n_links :: nat
  rail_idxs :: "int set"
  road_idxs :: "int set"
  inc_edge_to_link_idxs :: "string \<rightharpoonup> int list"
  is_crossing :: bool

text \<open>What the simulator answers during one step.  \<open>getNextTLS\<close> yields tuples
  (tls id, link index, distance, current signal).  A vehicle that is not in
  \<open>getIDList\<close> is unknown to the simulator: asking for it raises a TraCI exception.\<close>
record world =
  getTime :: real
  getIDList :: "veh_id list"
  getTypeID :: "veh_id \<Rightarrow> string"
  getNextTLS :: "veh_id \<Rightarrow> (tls_id \<times> int \<times> real \<times> char) list"

datatype command =
    SetLaneChangeMode veh_id int
  | SetSpeedMode veh_id int
  | SlowDown veh_id real real
  | SetSpeed veh_id real
  | SetRedYellowGreenState tls_id string
  | SetPhaseDuration tls_id real

text \<open>A row of the event log: time, event type, source, tls id, state.\<close>
type_synonym event = "real \<times> string \<times> string \<times> tls_id \<times> string"

type_synonym ledger = "(tls_id \<times> veh_id) \<rightharpoonup> int"

subsection \<open>Topology classification: \<^verbatim>\<open>analyze_tls\<close>\<close>

text \<open>The loop over \<^verbatim>\<open>enumerate(ctrl)\<close>.  \<^verbatim>\<open>triples[0][0]\<close> raises IndexError when an
  index controls no link at all.\<close>
fun classify ::
  "(string \<Rightarrow> string) \<Rightarrow> (nat \<times> link list) list \<Rightarrow>
   int set \<times> int set \<times> (string \<rightharpoonup> int list) \<Rightarrow>
   error + (int set \<times> int set \<times> (string \<rightharpoonup> int list))" where
  "classify getEdgeID [] acc = Inr acc"
| "classify getEdgeID ((idx, triples) # rest) (rail, road, by_edge) =
     (case triples of
        [] \<Rightarrow> Inl IndexError
      | (inc_lane, _) # _ \<Rightarrow>
          (let inc_edge = getEdgeID inc_lane in
           if prefix ''rail_'' inc_edge
           then classify getEdgeID rest (insert (int idx) rail, road, by_edge)
           else classify getEdgeID rest
                  (rail, insert (int idx) road,
                   by_edge(inc_edge \<mapsto>
                     (case by_edge inc_edge of None \<Rightarrow> [] | Some l \<Rightarrow> l) @ [int idx]))))"

definition analyze_tls :: "(string \<Rightarrow> string) \<Rightarrow> link list list \<Rightarrow> error + meta" where
  "analyze_tls getEdgeID ctrl =
     (case classify getEdgeID (enumerate 0 ctrl) ({}, {}, Map.empty) of
        Inl e \<Rightarrow> Inl e
      | Inr (rail, road, by_edge) \<Rightarrow>
          Inr \<lparr>n_links = length ctrl, rail_idxs = rail, road_idxs = road,
               inc_edge_to_link_idxs = by_edge, is_crossing = (rail \<noteq> {})\<rparr>)"

text \<open>\<^verbatim>\<open>tls_meta = {tls: analyze_tls(tls) for tls in getIDList()}\<close>, as an association
  list in the order of the ids.\<close>
fun build_tls_meta ::
  "(string \<Rightarrow> string) \<Rightarrow> (tls_id \<Rightarrow> link list list) \<Rightarrow> tls_id list \<Rightarrow>
   error + (tls_id \<times> meta) list" where
  "build_tls_meta getEdgeID getControlledLinks [] = Inr []"
| "build_tls_meta getEdgeID getControlledLinks (tls # rest) =
     (case analyze_tls getEdgeID (getControlledLinks tls) of
        Inl e \<Rightarrow> Inl e
      | Inr m \<Rightarrow>
          (case build_tls_meta getEdgeID getControlledLinks rest of
             Inl e \<Rightarrow> Inl e
           | Inr ms \<Rightarrow> Inr ((tls, m) # ms)))"

subsection \<open>The state string: \<^verbatim>\<open>build_state\<close>\<close>

text \<open>\<^verbatim>\<open>s[i] = c\<close> on a Python list: a negative index counts from the end, anything
  outside \<open>[-len, len)\<close> raises IndexError.\<close>
definition set_item :: "string \<Rightarrow> int \<Rightarrow> char \<Rightarrow> error + string" where
  "set_item s i c =
     (let len = int (length s) in
      if 0 \<le> i \<and> i < len then Inr (s[nat i := c])
      else if - len \<le> i \<and> i < 0 then Inr (s[nat (i + len) := c])
      else Inl IndexError)"

fun assign_all :: "int list \<Rightarrow> char \<Rightarrow> string \<Rightarrow> error + string" where
  "assign_all [] c s = Inr s"
| "assign_all (i # rest) c s =
     (case set_item s i c of Inl e \<Rightarrow> Inl e | Inr s' \<Rightarrow> assign_all rest c s')"

text \<open>Python iterates a set in an order of its own; every iteration writes the same
  character, so the result does not depend on it.  The model iterates in increasing
  order.\<close>
definition build_state :: "nat \<Rightarrow> int set \<Rightarrow> int set \<Rightarrow> error + string" where
  "build_state n greens force_red =
     (case assign_all (sorted_list_of_set greens) CHR ''G'' (replicate n CHR ''r'') of
        Inl e \<Rightarrow> Inl e
      | Inr s \<Rightarrow>
          if force_red \<noteq> {} then assign_all (sorted_list_of_set force_red) CHR ''r'' s
          else Inr s)"

subsection \<open>Step 1: emergency claims\<close>

definition is_ems :: "world \<Rightarrow> veh_id \<Rightarrow> bool" where
  "is_ems w v = (getTypeID w v = ''emergency'')"

definition is_train :: "world \<Rightarrow> veh_id \<Rightarrow> bool" where
  "is_train w v = (getTypeID w v = ''train'')"

text \<open>\<^verbatim>\<open>d.setdefault(tls_id, set()).add(link_idx)\<close>\<close>
definition add_link :: "(tls_id \<rightharpoonup> int set) \<Rightarrow> tls_id \<Rightarrow> int \<Rightarrow> (tls_id \<rightharpoonup> int set)" where
  "add_link d tls_id link_idx =
     d(tls_id \<mapsto> insert link_idx (case d tls_id of None \<Rightarrow> {} | Some s \<Rightarrow> s))"

record ems_acc =
  ems_green :: "tls_id \<rightharpoonup> int set"
  blocked_tls :: "tls_id set"
  ems_cmds :: "command list"

definition ems_step :: "world \<Rightarrow> veh_id \<Rightarrow> ems_acc \<Rightarrow> ems_acc" where
  "ems_step w vid a =
     (if \<not> is_ems w vid then a
      else case getNextTLS w vid of
             [] \<Rightarrow> a
           | (tls_id, link_idx, dst, _) # _ \<Rightarrow>
               if dst \<le> EMS_DIST
               then \<lparr>ems_green = add_link (ems_green a) tls_id link_idx,
                     blocked_tls = insert tls_id (blocked_tls a),
                     ems_cmds = ems_cmds a @ [SetLaneChangeMode vid 0, SetSpeedMode vid 0]\<rparr>
               else a)"

definition ems_claims :: "world \<Rightarrow> ems_acc" where
  "ems_claims w =
     fold (ems_step w) (getIDList w)
       \<lparr>ems_green = Map.empty, blocked_tls = {}, ems_cmds = []\<rparr>"

subsection \<open>Step 2: trains near crossings\<close>

record train_acc =
  train_near :: "tls_id set"
  train_green :: "tls_id \<rightharpoonup> int set"
  train_hold_left :: ledger
  train_cmds :: "command list"

text \<open>\<^verbatim>\<open>train_hold_left.get(key, TRAIN_HOLD_MAX)\<close>\<close>
definition hold_get :: "ledger \<Rightarrow> tls_id \<times> veh_id \<Rightarrow> int" where
  "hold_get L key = (case L key of None \<Rightarrow> TRAIN_HOLD_MAX | Some x \<Rightarrow> x)"

text \<open>The three distance bands of the slow-down.\<close>
definition slow_target :: "real \<Rightarrow> real" where
  "slow_target dst = (if dst < 25 then 0.1 else if dst < 70 then 3 else 6)"

definition train_step ::
  "(tls_id \<times> meta) list \<Rightarrow> world \<Rightarrow> tls_id set \<Rightarrow> veh_id \<Rightarrow> train_acc \<Rightarrow> train_acc" where
  "train_step tls_meta w blocked vid a =
     (if \<not> is_train w vid then a
      else case getNextTLS w vid of
             [] \<Rightarrow> a
           | (tls_id, link_idx, dst, _) # _ \<Rightarrow>
               (case map_of tls_meta tls_id of
                  None \<Rightarrow> a
                | Some m \<Rightarrow>
                    if \<not> is_crossing m then a
                    else
                      (let a1 = (if dst < TRAIN_WARN_DIST
                                 then a\<lparr>train_near := insert tls_id (train_near a)\<rparr>
                                 else a);
                           key = (tls_id, vid)
                       in if tls_id \<in> blocked \<and> dst < TRAIN_WARN_DIST
                          then
                            (let left = hold_get (train_hold_left a1) key
                             in if left > 0
                                then a1\<lparr>train_cmds :=
                                          train_cmds a1 @ [SlowDown vid (slow_target dst) 3],
                                        train_hold_left :=
                                          (train_hold_left a1)(key \<mapsto> left - 1)\<rparr>
                                else a1\<lparr>train_cmds := train_cmds a1 @ [SetSpeed vid (- 1)],
                                        train_green :=
                                          add_link (train_green a1) tls_id link_idx\<rparr>)
                          else if dst < TRAIN_WARN_DIST
                               then a1\<lparr>train_cmds := train_cmds a1 @ [SetSpeed vid (- 1)],
                                       train_green :=
                                         add_link (train_green a1) tls_id link_idx\<rparr>
                               else a1)))"

definition train_phase ::
  "(tls_id \<times> meta) list \<Rightarrow> world \<Rightarrow> tls_id set \<Rightarrow> ledger \<Rightarrow> train_acc" where
  "train_phase tls_meta w blocked L =
     fold (train_step tls_meta w blocked) (getIDList w)
       \<lparr>train_near = {}, train_green = Map.empty, train_hold_left = L, train_cmds = []\<rparr>"

subsection \<open>Step 3: anti-starvation at crossings\<close>

text \<open>\<^verbatim>\<open>tls_meta.items()\<close> yields every key once, with its value; the loop therefore builds
  the dictionary that has the road links of exactly the crossings that are neither
  blocked nor approached by a train.\<close>
definition crossing_road_green ::
  "(tls_id \<times> meta) list \<Rightarrow> tls_id set \<Rightarrow> tls_id set \<Rightarrow> (tls_id \<rightharpoonup> int set)" where
  "crossing_road_green tls_meta blocked near tls_id =
     (case map_of tls_meta tls_id of
        None \<Rightarrow> None
      | Some m \<Rightarrow>
          if \<not> is_crossing m then None
          else if tls_id \<notin> blocked \<and> tls_id \<notin> near then Some (road_idxs m)
          else None)"

subsection \<open>Step 4: resolution and the forced states\<close>

record decision =
  greens :: "int set"
  force_red :: "int set"
  event_type :: string
  source :: string

definition resolve ::
  "meta \<Rightarrow> (tls_id \<rightharpoonup> int set) \<Rightarrow> (tls_id \<rightharpoonup> int set) \<Rightarrow> (tls_id \<rightharpoonup> int set) \<Rightarrow>
   tls_id \<Rightarrow> decision" where
  "resolve m ems train crg tls_id =
     (let g0 = (case crg tls_id of None \<Rightarrow> {} | Some s \<Rightarrow> {} \<union> s);
          g1 = (case train tls_id of None \<Rightarrow> g0 | Some s \<Rightarrow> g0 \<union> s)
      in case ems tls_id of
           Some s \<Rightarrow>
             \<lparr>greens = s, force_red = rail_idxs m,
              event_type = ''ems_preempt'', source = ''ems''\<rparr>
         | None \<Rightarrow>
             (case train tls_id of
                Some _ \<Rightarrow>
                  \<lparr>greens = g1, force_red = {},
                   event_type = ''train_request'', source = ''train''\<rparr>
              | None \<Rightarrow>
                  (case crg tls_id of
                     Some _ \<Rightarrow>
                       \<lparr>greens = g1, force_red = {},
                        event_type = ''road_keep_green'', source = ''controller''\<rparr>
                   | None \<Rightarrow>
                       \<lparr>greens = g1, force_red = {},
                        event_type = ''other'', source = ''controller''\<rparr>)))"

text \<open>The body of the loop over \<^verbatim>\<open>touched\<close>: \<^verbatim>\<open>tls_meta[tls_id]\<close> raises KeyError for
  an unknown id.\<close>
definition apply_tls ::
  "(tls_id \<times> meta) list \<Rightarrow> real \<Rightarrow> (tls_id \<rightharpoonup> int set) \<Rightarrow> (tls_id \<rightharpoonup> int set) \<Rightarrow>
   (tls_id \<rightharpoonup> int set) \<Rightarrow> tls_id \<Rightarrow> error + (event \<times> command list)" where
  "apply_tls tls_meta t ems train crg tls_id =
     (case map_of tls_meta tls_id of
        None \<Rightarrow> Inl KeyError
      | Some m \<Rightarrow>
          (let d = resolve m ems train crg tls_id in
           case build_state (n_links m) (greens d) (force_red d) of
             Inl e \<Rightarrow> Inl e
           | Inr state \<Rightarrow>
               Inr ((t, event_type d, source d, tls_id, state),
                    [SetRedYellowGreenState tls_id state, SetPhaseDuration tls_id PULSE])))"

fun apply_all ::
  "(tls_id \<times> meta) list \<Rightarrow> real \<Rightarrow> (tls_id \<rightharpoonup> int set) \<Rightarrow> (tls_id \<rightharpoonup> int set) \<Rightarrow>
   (tls_id \<rightharpoonup> int set) \<Rightarrow> tls_id list \<Rightarrow> error + (event list \<times> command list)" where
  "apply_all tls_meta t ems train crg [] = Inr ([], [])"
| "apply_all tls_meta t ems train crg (tls_id # rest) =
     (case apply_tls tls_meta t ems train crg tls_id of
        Inl e \<Rightarrow> Inl e
      | Inr (ev, cs) \<Rightarrow>
          (case apply_all tls_meta t ems train crg rest of
             Inl e \<Rightarrow> Inl e
           | Inr (evs, css) \<Rightarrow> Inr (ev # evs, cs @ css)))"

subsection \<open>Step 5: cleaning the hold budgets\<close>

text \<open>An entry is popped when its train is unknown to the simulator or has no next TLS.
  The tls of the key is unpacked but not looked at.\<close>
definition prune :: "world \<Rightarrow> ledger \<Rightarrow> ledger" where
  "prune w L =
     (\<lambda>(tls_id, train_id).
        if train_id \<in> set (getIDList w) \<and> getNextTLS w train_id \<noteq> []
        then L (tls_id, train_id) else None)"

subsection \<open>One pass of the control loop\<close>

record tick_out =
  events :: "event list"
  cmds :: "command list"
  hold_left :: ledger

text \<open>The set \<^verbatim>\<open>touched\<close> is iterated in increasing order of the ids; Python's own order
  is unspecified, and no decision depends on it.  An exception ends the process:
  \<open>Inl\<close>.\<close>
definition tick :: "(tls_id \<times> meta) list \<Rightarrow> world \<Rightarrow> ledger \<Rightarrow> error + tick_out" where
  "tick tls_meta w L =
     (let e = ems_claims w;
          tr = train_phase tls_meta w (blocked_tls e) L;
          crg = crossing_road_green tls_meta (blocked_tls e) (train_near tr);
          touched = dom (ems_green e) \<union> dom (train_green tr) \<union> dom crg
      in case apply_all tls_meta (getTime w) (ems_green e) (train_green tr) crg
                (sorted_list_of_set touched) of
           Inl err \<Rightarrow> Inl err
         | Inr (evs, cs) \<Rightarrow>
             Inr \<lparr>events = evs,
                  cmds = ems_cmds e @ train_cmds tr @ cs,
                  hold_left = prune w (train_hold_left tr)\<rparr>)"

section \<open>Notions for the statements, and example situations\<close>

text \<open>A Python list of length \<open>n\<close> accepts the index \<open>i\<close>.\<close>
definition in_range :: "nat \<Rightarrow> int \<Rightarrow> bool" where
  "in_range n i = (- int n \<le> i \<and> i < int n)"

text \<open>The position that the accepted index \<open>i\<close> names in a list of length \<open>n\<close>.\<close>
definition pos :: "nat \<Rightarrow> int \<Rightarrow> nat" where
  "pos n i = nat (if i < 0 then i + int n else i)"

text \<open>Vehicle \<open>v\<close> is an emergency vehicle whose next intersection is \<open>tls\<close>, on link \<open>l\<close>,
  at most \<open>EMS_DIST\<close> away.\<close>
definition ems_claim :: "world \<Rightarrow> veh_id \<Rightarrow> tls_id \<Rightarrow> int \<Rightarrow> bool" where
  "ems_claim w v tls l =
     (is_ems w v \<and>
      (case getNextTLS w v of [] \<Rightarrow> False
       | (t, l', d, _) # _ \<Rightarrow> t = tls \<and> l' = l \<and> d \<le> EMS_DIST))"

text \<open>The links on which the emergency vehicles among \<open>vs\<close> claim \<open>tls\<close>.\<close>
definition ems_links :: "world \<Rightarrow> veh_id list \<Rightarrow> tls_id \<Rightarrow> int set" where
  "ems_links w vs tls = {l. list_ex (\<lambda>v. ems_claim w v tls l) vs}"

text \<open>The set stored under a key of a dictionary of sets, empty when the key is absent.\<close>
definition base :: "(tls_id \<rightharpoonup> int set) \<Rightarrow> tls_id \<Rightarrow> int set" where
  "base d tls = (case d tls of None \<Rightarrow> {} | Some s \<Rightarrow> s)"

text \<open>Vehicle \<open>v\<close> is a train whose next intersection is the crossing \<open>tls\<close>, on link \<open>l\<close>,
  less than \<open>TRAIN_WARN_DIST\<close> away.\<close>
definition train_obs :: "(tls_id \<times> meta) list \<Rightarrow> world \<Rightarrow> veh_id \<Rightarrow> tls_id \<Rightarrow> int \<Rightarrow> bool" where
  "train_obs M w v tls l =
     (is_train w v \<and>
      (case getNextTLS w v of [] \<Rightarrow> False
       | (t, l', d, _) # _ \<Rightarrow>
           t = tls \<and> l' = l \<and> d < TRAIN_WARN_DIST \<and>
           (case map_of M t of None \<Rightarrow> False | Some m \<Rightarrow> is_crossing m)))"

text \<open>The links on which the trains among \<open>vs\<close> are inside the warn distance of \<open>tls\<close>.\<close>
definition train_links :: "(tls_id \<times> meta) list \<Rightarrow> world \<Rightarrow> veh_id list \<Rightarrow> tls_id \<Rightarrow> int set" where
  "train_links M w vs tls = {l. list_ex (\<lambda>v. train_obs M w v tls l) vs}"

text \<open>The distance of a vehicle to its next intersection.\<close>
definition next_dist :: "world \<Rightarrow> veh_id \<Rightarrow> real" where
  "next_dist w v = (case getNextTLS w v of [] \<Rightarrow> 0 | (_, _, d, _) # _ \<Rightarrow> d)"

text \<open>The commands \<open>cs\<close> hold a slow-down for vehicle \<open>v\<close>.\<close>
definition slowed :: "veh_id \<Rightarrow> command list \<Rightarrow> bool" where
  "slowed v cs = list_ex (\<lambda>c. case c of SlowDown u _ _ \<Rightarrow> u = v | _ \<Rightarrow> False) cs"

text \<open>The commands \<open>cs\<close> hold a \<^verbatim>\<open>setSpeed\<close> for vehicle \<open>v\<close>.\<close>
definition released :: "veh_id \<Rightarrow> command list \<Rightarrow> bool" where
  "released v cs = list_ex (\<lambda>c. case c of SetSpeed u _ \<Rightarrow> u = v | _ \<Rightarrow> False) cs"

text \<open>Every budget of the ledger, absent entries read as the maximum, lies between 0 and
  \<open>TRAIN_HOLD_MAX\<close>.\<close>
definition ledger_ok :: "ledger \<Rightarrow> bool" where
  "ledger_ok L = (\<forall>key. 0 \<le> hold_get L key \<and> hold_get L key \<le> TRAIN_HOLD_MAX)"

text \<open>The result of step 2 inside a pass.\<close>
definition tick_train :: "(tls_id \<times> meta) list \<Rightarrow> world \<Rightarrow> ledger \<Rightarrow> train_acc" where
  "tick_train M w L = train_phase M w (blocked_tls (ems_claims w)) L"

text \<open>The dictionary \<^verbatim>\<open>crossing_road_green\<close> inside a pass.\<close>
definition tick_crg :: "(tls_id \<times> meta) list \<Rightarrow> world \<Rightarrow> ledger \<Rightarrow> (tls_id \<rightharpoonup> int set)" where
  "tick_crg M w L =
     crossing_road_green M (blocked_tls (ems_claims w)) (train_near (tick_train M w L))"

text \<open>The set \<^verbatim>\<open>touched\<close> inside a pass.\<close>
definition touched :: "(tls_id \<times> meta) list \<Rightarrow> world \<Rightarrow> ledger \<Rightarrow> tls_id set" where
  "touched M w L =
     dom (ems_green (ems_claims w)) \<union> dom (train_green (tick_train M w L)) \<union> dom (tick_crg M w L)"

text \<open>The decision of a pass for one intersection: green set, forced-red set, tags.\<close>
definition tick_decision :: "(tls_id \<times> meta) list \<Rightarrow> world \<Rightarrow> ledger \<Rightarrow> tls_id \<Rightarrow> decision option" where
  "tick_decision M w L tls =
     (case map_of M tls of
        None \<Rightarrow> None
      | Some m \<Rightarrow>
          Some (resolve m (ems_green (ems_claims w)) (train_green (tick_train M w L))
                  (tick_crg M w L) tls))"

text \<open>The record of an intersection splits the indices \<open>0 .. n - 1\<close> into the rail and the
  road group, and it is a crossing iff the rail group is not empty.\<close>
definition meta_ok :: "meta \<Rightarrow> bool" where
  "meta_ok m =
     (rail_idxs m \<union> road_idxs m = {0..<int (n_links m)} \<and>
      rail_idxs m \<inter> road_idxs m = {} \<and>
      is_crossing m = (rail_idxs m \<noteq> {}))"

text \<open>What the simulator guarantees about \<^verbatim>\<open>getNextTLS\<close>: the intersection is one of the
  network and the link index is one of its controlled links.\<close>
definition obs_ok :: "(tls_id \<times> meta) list \<Rightarrow> world \<Rightarrow> bool" where
  "obs_ok M w =
     (\<forall>v\<in>set (getIDList w).
        case getNextTLS w v of
          [] \<Rightarrow> True
        | (t, l, _) # _ \<Rightarrow>
            (case map_of M t of None \<Rightarrow> False
             | Some m \<Rightarrow> 0 \<le> l \<and> l < int (n_links m)))"

text \<open>Example network: the edge of a lane.\<close>
definition x_edge :: "string \<Rightarrow> string" where
  "x_edge lane = (if lane = ''rail_ns_0'' then ''rail_ns'' else ''road_ew'')"

text \<open>Example network: every intersection controls a road link (index 0) and a rail link
  (index 1).\<close>
definition x_links :: "tls_id \<Rightarrow> link list list" where
  "x_links tls = [[(''road_ew_0'', ''road_out_0'', '':X_0_0'')],
                  [(''rail_ns_0'', ''rail_out_0'', '':X_1_0'')]]"

text \<open>Example network: the classification of its only intersection \<^verbatim>\<open>X\<close>.\<close>
definition x_meta :: "(tls_id \<times> meta) list" where
  "x_meta = [(''X'', \<lparr>n_links = 2, rail_idxs = {1}, road_idxs = {0},
                      inc_edge_to_link_idxs = [''road_ew'' \<mapsto> [0]], is_crossing = True\<rparr>)]"

text \<open>An ambulance 50 m from \<^verbatim>\<open>X\<close> on link 0, train \<^verbatim>\<open>t1\<close> 100 m from \<^verbatim>\<open>X\<close> on link 1.\<close>
definition w_block :: world where
  "w_block = \<lparr>getTime = 1, getIDList = [''amb'', ''t1''],
     getTypeID = (\<lambda>v. if v = ''amb'' then ''emergency'' else ''train''),
     getNextTLS = (\<lambda>v. if v = ''amb'' then [(''X'', 0, 50, CHR ''r'')]
                        else [(''X'', 1, 100, CHR ''r'')])\<rparr>"

text \<open>A passenger car only.\<close>
definition w_idle :: world where
  "w_idle = \<lparr>getTime = 2, getIDList = [''car''],
     getTypeID = (\<lambda>v. ''passenger''),
     getNextTLS = (\<lambda>v. [(''X'', 0, 10, CHR ''r'')])\<rparr>"

text \<open>The ledger in which the budget of train \<^verbatim>\<open>t1\<close> at \<^verbatim>\<open>X\<close> is used up.\<close>
definition spent :: ledger where
  "spent = [(''X'', ''t1'') \<mapsto> 0]"

text \<open>An ambulance 50 m from \<^verbatim>\<open>X\<close> on the rail link 1, nothing else.\<close>
definition w_rail_ems :: world where
  "w_rail_ems = \<lparr>getTime = 6, getIDList = [''amb''],
     getTypeID = (\<lambda>v. ''emergency''),
     getNextTLS = (\<lambda>v. [(''X'', 1, 50, CHR ''r'')])\<rparr>"

text \<open>Train \<^verbatim>\<open>t1\<close> reports \<^verbatim>\<open>Z\<close> as its next intersection.\<close>
definition w_moved :: world where
  "w_moved = \<lparr>getTime = 3, getIDList = [''t1''],
     getTypeID = (\<lambda>v. ''train''),
     getNextTLS = (\<lambda>v. [(''Z'', 0, 40, CHR ''r'')])\<rparr>"

text \<open>The pass slows train \<open>v\<close> down while its next intersection is \<open>tls\<close>.\<close>
definition held :: "(tls_id \<times> meta) list \<Rightarrow> world \<Rightarrow> ledger \<Rightarrow> tls_id \<Rightarrow> veh_id \<Rightarrow> bool" where
  "held M w L tls v =
     ((case getNextTLS w v of [] \<Rightarrow> False | (t, _) # _ \<Rightarrow> t = tls) \<and>
      slowed v (train_cmds (tick_train M w L)))"



text \<open>The control loop over the passes the simulator allows; an exception ends it.\<close>
fun run_ticks :: "(tls_id \<times> meta) list \<Rightarrow> world list \<Rightarrow> ledger \<Rightarrow> error + ledger" where
  "run_ticks M [] L = Inr L"
| "run_ticks M (w # ws) L =
     (case tick M w L of Inl e \<Rightarrow> Inl e | Inr out \<Rightarrow> run_ticks M ws (hold_left out))"

text \<open>The number of consecutive passes, from the first of \<open>ws\<close> on, that hold train \<open>v\<close>
  for intersection \<open>tls\<close>.\<close>
fun hold_streak ::
  "(tls_id \<times> meta) list \<Rightarrow> tls_id \<Rightarrow> veh_id \<Rightarrow> world list \<Rightarrow> ledger \<Rightarrow> nat" where
  "hold_streak M tls v [] L = 0"
| "hold_streak M tls v (w # ws) L =
     (if held M w L tls v
      then Suc (case tick M w L of Inl e \<Rightarrow> 0 | Inr out \<Rightarrow> hold_streak M tls v ws (hold_left out))
      else 0)"

text \<open>The ledger whose only entry gives train \<^verbatim>\<open>t1\<close> at \<^verbatim>\<open>X\<close> the budget \<open>b\<close>.\<close>
definition budget :: "int \<Rightarrow> ledger" where
  "budget b = [(''X'', ''t1'') \<mapsto> b]"

text \<open>Train \<open>v\<close> is inside the warn distance of crossing \<open>tls\<close>, approaching on link \<open>l\<close>,
  and an emergency vehicle claims \<open>tls\<close>; vehicle ids are unique.\<close>
definition near_blocked ::
  "(tls_id \<times> meta) list \<Rightarrow> world \<Rightarrow> tls_id \<Rightarrow> veh_id \<Rightarrow> int \<Rightarrow> bool" where
  "near_blocked M w tls v l =
     (distinct (getIDList w) \<and> v \<in> set (getIDList w) \<and> train_obs M w v tls l \<and>
      ems_links w (getIDList w) tls \<noteq> {})"

text \<open>As \<open>w_block\<close>, with the train \<open>d\<close> metres from \<^verbatim>\<open>X\<close>.\<close>
definition w_near :: "real \<Rightarrow> world" where
  "w_near d = \<lparr>getTime = 1, getIDList = [''amb'', ''t1''],
     getTypeID = (\<lambda>v. if v = ''amb'' then ''emergency'' else ''train''),
     getNextTLS = (\<lambda>v. if v = ''amb'' then [(''X'', 0, 50, CHR ''r'')]
                        else [(''X'', 1, d, CHR ''r'')])\<rparr>"

text \<open>A network whose intersections control no link.\<close>
definition no_links :: "tls_id \<Rightarrow> link list list" where
  "no_links tls = []"

section \<open>Properties\<close>

lemma set_item_Inr:
  "set_item s i c = Inr s' \<Longrightarrow> in_range (length s) i \<and> s' = s[pos (length s) i := c]"
  by (auto simp: set_item_def in_range_def pos_def Let_def split: if_splits)

lemma set_item_ok:
  "in_range (length s) i \<Longrightarrow> set_item s i c = Inr (s[pos (length s) i := c])"
  by (auto simp: set_item_def in_range_def pos_def Let_def)

lemma pos_less: "in_range n i \<Longrightarrow> pos n i < n"
  by (auto simp: in_range_def pos_def)

lemma assign_all_Inr:
  "assign_all is c s = Inr s' \<Longrightarrow>
     length s' = length s \<and> (\<forall>i\<in>set is. in_range (length s) i) \<and>
     (\<forall>k<length s. s' ! k = (if k \<in> pos (length s) ` set is then c else s ! k))"
proof (induction "is" arbitrary: s)
  case Nil
  then show ?case by simp
next
  case (Cons i rest)
  from Cons.prems obtain s1 where s1: "set_item s i c = Inr s1" and r: "assign_all rest c s1 = Inr s'"
    by (auto split: sum.splits)
  from set_item_Inr[OF s1] have ir: "in_range (length s) i" and e: "s1 = s[pos (length s) i := c]" by auto
  from Cons.IH[OF r] e have
    l: "length s' = length s" and a: "\<forall>j\<in>set rest. in_range (length s) j"
    and v: "\<forall>k<length s. s' ! k = (if k \<in> pos (length s) ` set rest then c else s1 ! k)"
    by auto
  show ?case using l a v ir e pos_less[OF ir]
    by (auto simp: nth_list_update)
qed

lemma assign_all_ok:
  "\<forall>i\<in>set is. in_range (length s) i \<Longrightarrow> \<exists>s'. assign_all is c s = Inr s'"
proof (induction "is" arbitrary: s)
  case Nil
  then show ?case by simp
next
  case (Cons i rest)
  then show ?case by (simp add: set_item_ok)
qed

lemma build_state_Inr:
  assumes "build_state n g f = Inr st" "finite g" "finite f"
  shows "length st = n" "\<forall>i\<in>g \<union> f. in_range n i"
    "\<forall>k<n. st ! k = (if k \<in> pos n ` f then CHR ''r'' else if k \<in> pos n ` g then CHR ''G'' else CHR ''r'')"
proof -
  from assms(1) obtain s1 where
    s1: "assign_all (sorted_list_of_set g) CHR ''G'' (replicate n CHR ''r'') = Inr s1"
    and s2: "(if f \<noteq> {} then assign_all (sorted_list_of_set f) CHR ''r'' s1 else Inr s1) = Inr st"
    by (auto simp: build_state_def split: sum.splits)
  from assign_all_Inr[OF s1] assms(2) have
    l1: "length s1 = n" and r1: "\<forall>i\<in>g. in_range n i"
    and v1: "\<forall>k<n. s1 ! k = (if k \<in> pos n ` g then CHR ''G'' else CHR ''r'')"
    by auto
  have "length st = n \<and> (\<forall>i\<in>f. in_range n i) \<and>
        (\<forall>k<n. st ! k = (if k \<in> pos n ` f then CHR ''r'' else s1 ! k))"
  proof (cases "f = {}")
    case True
    with s2 l1 show ?thesis by simp
  next
    case False
    with s2 have "assign_all (sorted_list_of_set f) CHR ''r'' s1 = Inr st" by simp
    from assign_all_Inr[OF this] assms(3) l1 show ?thesis by auto
  qed
  with l1 r1 v1 show "length st = n" "\<forall>i\<in>g \<union> f. in_range n i"
    "\<forall>k<n. st ! k = (if k \<in> pos n ` f then CHR ''r'' else if k \<in> pos n ` g then CHR ''G'' else CHR ''r'')"
    by auto
qed

lemma build_state_ok:
  assumes "finite g" "finite f" "\<forall>i\<in>g \<union> f. in_range n i"
  shows "\<exists>st. build_state n g f = Inr st"
proof -
  from assms obtain s1 where
    s1: "assign_all (sorted_list_of_set g) CHR ''G'' (replicate n CHR ''r'') = Inr s1"
    using assign_all_ok[of "sorted_list_of_set g" "replicate n CHR ''r''" "CHR ''G''"] by auto
  from assign_all_Inr[OF s1] have l1: "length s1 = n" by simp
  from assms l1 obtain s2 where "assign_all (sorted_list_of_set f) CHR ''r'' s1 = Inr s2"
    using assign_all_ok[of "sorted_list_of_set f" s1 "CHR ''r''"] by auto
  with s1 show ?thesis by (auto simp: build_state_def)
qed

lemma ems_step_green:
  "ems_green (ems_step w v a) tls =
     (if ems_links w [v] tls = {} then ems_green a tls
      else Some (base (ems_green a) tls \<union> ems_links w [v] tls))"
  by (auto simp: ems_step_def ems_links_def ems_claim_def add_link_def base_def
           split: list.splits option.splits)

lemma ems_step_blocked:
  "blocked_tls (ems_step w v a) = blocked_tls a \<union> {tls. ems_links w [v] tls \<noteq> {}}"
  by (auto simp: ems_step_def ems_links_def ems_claim_def split: list.splits)

lemma ems_links_Cons: "ems_links w (v # vs) tls = ems_links w [v] tls \<union> ems_links w vs tls"
  by (auto simp: ems_links_def)

lemma ems_fold_green:
  "ems_green (fold (ems_step w) vs a) tls =
     (if ems_links w vs tls = {} then ems_green a tls
      else Some (base (ems_green a) tls \<union> ems_links w vs tls))"
proof (induction vs arbitrary: a)
  case Nil
  then show ?case by (simp add: ems_links_def)
next
  case (Cons v vs)
  show ?case
    unfolding fold_Cons comp_def Cons.IH ems_links_Cons[of w v vs]
    by (auto simp: ems_step_green base_def)
qed

lemma ems_fold_blocked:
  "blocked_tls (fold (ems_step w) vs a) = blocked_tls a \<union> {tls. ems_links w vs tls \<noteq> {}}"
proof (induction vs arbitrary: a)
  case Nil
  then show ?case by (simp add: ems_links_def)
next
  case (Cons v vs)
  show ?case
    unfolding fold_Cons comp_def Cons.IH ems_links_Cons[of w v vs]
    by (auto simp: ems_step_blocked)
qed

lemma ems_claims_green:
  "ems_green (ems_claims w) tls =
     (if ems_links w (getIDList w) tls = {} then None else Some (ems_links w (getIDList w) tls))"
  by (simp add: ems_claims_def ems_fold_green base_def)

lemma ems_claims_blocked:
  "blocked_tls (ems_claims w) = dom (ems_green (ems_claims w))"
  by (auto simp: ems_claims_def ems_fold_blocked ems_fold_green split: if_splits)

lemma ems_links_single:
  "ems_links w [v] tls \<subseteq> {fst (snd (hd (getNextTLS w v)))}"
  by (cases "getNextTLS w v") (auto simp: ems_links_def ems_claim_def)

lemma ems_links_Nil: "ems_links w [] tls = {}"
  by (simp add: ems_links_def)

lemma ems_links_finite: "finite (ems_links w vs tls)"
proof (induction vs)
  case Nil
  show ?case by (simp add: ems_links_Nil)
next
  case (Cons v vs)
  have "finite (ems_links w [v] tls)"
    using ems_links_single[of w v tls] by (rule finite_subset) simp
  with Cons show ?case by (simp add: ems_links_Cons[of w v vs])
qed

lemma ems_claimed_single:
  "{tls. ems_links w [v] tls \<noteq> {}} \<subseteq> {fst (hd (getNextTLS w v))}"
  by (cases "getNextTLS w v") (auto simp: ems_links_def ems_claim_def)

lemma ems_claimed_finite: "finite {tls. ems_links w vs tls \<noteq> {}}"
proof (induction vs)
  case Nil
  show ?case by (simp add: ems_links_Nil)
next
  case (Cons v vs)
  have f: "finite {tls. ems_links w [v] tls \<noteq> {}}"
    using ems_claimed_single[of w v] by (rule finite_subset) simp
  have "{tls. ems_links w (v # vs) tls \<noteq> {}} =
        {tls. ems_links w [v] tls \<noteq> {}} \<union> {tls. ems_links w vs tls \<noteq> {}}"
    by (auto simp: ems_links_Cons[of w v vs])
  with f Cons show ?case by simp
qed

lemma ems_dom: "dom (ems_green (ems_claims w)) = {tls. ems_links w (getIDList w) tls \<noteq> {}}"
  by (auto simp: ems_claims_green split: if_splits)

lemma ems_dom_finite: "finite (dom (ems_green (ems_claims w)))"
  by (simp add: ems_dom ems_claimed_finite)

lemma train_obs_unique:
  "train_obs M w v tls l \<Longrightarrow> train_obs M w v tls' l' \<Longrightarrow> tls' = tls \<and> l' = l"
  by (auto simp: train_obs_def split: list.splits)

lemma train_step_skip:
  assumes "\<forall>tls l. \<not> train_obs M w v tls l"
  shows "train_step M w B v a = a"
proof (cases "is_train w v")
  case False
  then show ?thesis by (simp add: train_step_def)
next
  case True
  show ?thesis
  proof (cases "getNextTLS w v")
    case Nil
    then show ?thesis by (simp add: train_step_def)
  next
    case (Cons x rest)
    obtain t l d c where x: "x = (t, l, d, c)" by (cases x) auto
    show ?thesis
    proof (cases "map_of M t")
      case None
      with Cons x True show ?thesis by (simp add: train_step_def)
    next
      case (Some m)
      from assms[rule_format, of t l] True Cons x Some
      have "\<not> is_crossing m \<or> \<not> d < TRAIN_WARN_DIST" by (auto simp: train_obs_def)
      with Cons x True Some show ?thesis by (simp add: train_step_def Let_def split: if_splits)
    qed
  qed
qed

lemma train_step_hold:
  assumes "train_obs M w v tls l" "tls \<in> B" "0 < hold_get (train_hold_left a) (tls, v)"
  shows "train_step M w B v a =
         a\<lparr>train_near := insert tls (train_near a),
           train_cmds := train_cmds a @ [SlowDown v (slow_target (next_dist w v)) 3],
           train_hold_left := (train_hold_left a)((tls, v) \<mapsto> hold_get (train_hold_left a) (tls, v) - 1)\<rparr>"
proof -
  from assms(1) obtain d c rest m where
    "is_train w v" "getNextTLS w v = (tls, l, d, c) # rest" "d < TRAIN_WARN_DIST"
    "map_of M tls = Some m" "is_crossing m"
    by (auto simp: train_obs_def split: list.splits option.splits)
  with assms(2,3) show ?thesis by (simp add: train_step_def Let_def next_dist_def)
qed

lemma train_step_release:
  assumes "train_obs M w v tls l" "tls \<notin> B \<or> \<not> 0 < hold_get (train_hold_left a) (tls, v)"
  shows "train_step M w B v a =
         a\<lparr>train_near := insert tls (train_near a),
           train_cmds := train_cmds a @ [SetSpeed v (- 1)],
           train_green := add_link (train_green a) tls l\<rparr>"
proof -
  from assms(1) obtain d c rest m where
    "is_train w v" "getNextTLS w v = (tls, l, d, c) # rest" "d < TRAIN_WARN_DIST"
    "map_of M tls = Some m" "is_crossing m"
    by (auto simp: train_obs_def split: list.splits option.splits)
  with assms(2) show ?thesis by (cases "tls \<in> B") (simp_all add: train_step_def Let_def)
qed

lemma train_step_cases:
  obtains (skip) "\<forall>tls l. \<not> train_obs M w v tls l" "train_step M w B v a = a"
  | (hold) tls l where "train_obs M w v tls l" "tls \<in> B"
      "0 < hold_get (train_hold_left a) (tls, v)"
      "train_step M w B v a =
         a\<lparr>train_near := insert tls (train_near a),
           train_cmds := train_cmds a @ [SlowDown v (slow_target (next_dist w v)) 3],
           train_hold_left := (train_hold_left a)((tls, v) \<mapsto> hold_get (train_hold_left a) (tls, v) - 1)\<rparr>"
  | (release) tls l where "train_obs M w v tls l"
      "tls \<notin> B \<or> \<not> 0 < hold_get (train_hold_left a) (tls, v)"
      "train_step M w B v a =
         a\<lparr>train_near := insert tls (train_near a),
           train_cmds := train_cmds a @ [SetSpeed v (- 1)],
           train_green := add_link (train_green a) tls l\<rparr>"
proof (cases "\<exists>tls l. train_obs M w v tls l")
  case False
  then show ?thesis using skip train_step_skip[of M w v B a] by blast
next
  case True
  then obtain tls l where o: "train_obs M w v tls l" by blast
  show ?thesis
  proof (cases "tls \<in> B \<and> 0 < hold_get (train_hold_left a) (tls, v)")
    case True
    then show ?thesis using hold[of tls l] o train_step_hold[of M w v tls l B a] by blast
  next
    case False
    then show ?thesis using release[of tls l] o train_step_release[of M w v tls l B a] by blast
  qed
qed

lemma train_links_single: "l \<in> train_links M w [v] tls \<longleftrightarrow> train_obs M w v tls l"
  by (simp add: train_links_def)

lemma train_links_mem: "l \<in> train_links M w vs tls \<longleftrightarrow> (\<exists>v\<in>set vs. train_obs M w v tls l)"
  by (simp add: train_links_def list_ex_iff)

lemma train_step_near:
  "t \<in> train_near (train_step M w B v a) \<longleftrightarrow>
     t \<in> train_near a \<or> (\<exists>l. train_obs M w v t l)"
proof (cases rule: train_step_cases[of M w v B a])
  case skip
  then show ?thesis by simp
next
  case (hold tls l)
  from hold(4) have n: "train_near (train_step M w B v a) = insert tls (train_near a)"
    by simp
  have "(\<exists>k. train_obs M w v t k) \<longleftrightarrow> t = tls"
    using hold(1) train_obs_unique[OF hold(1)] by blast
  with n show ?thesis by blast
next
  case (release tls l)
  from release(3) have n: "train_near (train_step M w B v a) = insert tls (train_near a)"
    by simp
  have "(\<exists>k. train_obs M w v t k) \<longleftrightarrow> t = tls"
    using release(1) train_obs_unique[OF release(1)] by blast
  with n show ?thesis by blast
qed

lemma train_step_cmds_mono:
  "c \<in> set (train_cmds a) \<Longrightarrow> c \<in> set (train_cmds (train_step M w B v a))"
  by (cases rule: train_step_cases[of M w v B a]) simp_all

lemma train_step_ledger_other:
  "u \<noteq> v \<Longrightarrow> train_hold_left (train_step M w B u a) (t, v) = train_hold_left a (t, v)"
  by (cases rule: train_step_cases[of M w u B a]) simp_all

lemma train_step_budget_mono:
  "hold_get (train_hold_left (train_step M w B v a)) key \<le> hold_get (train_hold_left a) key"
  by (cases rule: train_step_cases[of M w v B a]) (simp_all add: hold_get_def)

lemma train_step_ledger_ok:
  "ledger_ok (train_hold_left a) \<Longrightarrow> ledger_ok (train_hold_left (train_step M w B v a))"
proof (cases rule: train_step_cases[of M w v B a])
  case skip
  assume "ledger_ok (train_hold_left a)"
  with skip show ?thesis by simp
next
  case (hold tls l)
  assume ok: "ledger_ok (train_hold_left a)"
  show ?thesis unfolding ledger_ok_def
  proof
    fix key
    from ok have k: "0 \<le> hold_get (train_hold_left a) key \<and> hold_get (train_hold_left a) key \<le> TRAIN_HOLD_MAX"
      and k2: "hold_get (train_hold_left a) (tls, v) \<le> TRAIN_HOLD_MAX"
      unfolding ledger_ok_def by blast+
    show "0 \<le> hold_get (train_hold_left (train_step M w B v a)) key \<and>
          hold_get (train_hold_left (train_step M w B v a)) key \<le> TRAIN_HOLD_MAX"
    proof (cases "key = (tls, v)")
      case True
      with hold(3,4) k2 show ?thesis by (simp add: hold_get_def)
    next
      case False
      with hold(4) k show ?thesis by (simp add: hold_get_def)
    qed
  qed
next
  case (release tls l)
  assume "ledger_ok (train_hold_left a)"
  with release show ?thesis by simp
qed

lemma slowed_append: "slowed v (cs @ ds) \<longleftrightarrow> slowed v cs \<or> slowed v ds"
  by (simp add: slowed_def)

lemma released_append: "released v (cs @ ds) \<longleftrightarrow> released v cs \<or> released v ds"
  by (simp add: released_def)

lemma slowed_single [simp]:
  "slowed v [SlowDown u x y] \<longleftrightarrow> u = v" "\<not> slowed v [SetSpeed u x]" "\<not> slowed v []"
  by (simp_all add: slowed_def)

lemma released_single [simp]:
  "released v [SetSpeed u x] \<longleftrightarrow> u = v" "\<not> released v [SlowDown u x y]" "\<not> released v []"
  by (simp_all add: released_def)

lemma slowed_mem: "SlowDown v x y \<in> set cs \<Longrightarrow> slowed v cs"
  by (force simp: slowed_def list_ex_iff)

lemma released_mem: "SetSpeed v x \<in> set cs \<Longrightarrow> released v cs"
  by (force simp: released_def list_ex_iff)

lemma train_step_slowed:
  "slowed v (train_cmds (train_step M w B u a)) \<longleftrightarrow>
     slowed v (train_cmds a) \<or>
     (u = v \<and> (\<exists>tls l. train_obs M w v tls l \<and> tls \<in> B \<and> 0 < hold_get (train_hold_left a) (tls, v)))"
proof (cases rule: train_step_cases[of M w u B a])
  case skip
  then show ?thesis by auto
next
  case (hold tls l)
  then show ?thesis by (auto simp: slowed_append)
next
  case (release tls l)
  from release(1,2) have "\<not> (\<exists>t k. train_obs M w u t k \<and> t \<in> B \<and> 0 < hold_get (train_hold_left a) (t, u))"
    using train_obs_unique[OF release(1)] by blast
  with release(3) show ?thesis by (auto simp: slowed_append)
qed

lemma train_step_released:
  "released v (train_cmds (train_step M w B u a)) \<longleftrightarrow>
     released v (train_cmds a) \<or>
     (u = v \<and> (\<exists>tls l. train_obs M w v tls l \<and> (tls \<notin> B \<or> \<not> 0 < hold_get (train_hold_left a) (tls, v))))"
proof (cases rule: train_step_cases[of M w u B a])
  case skip
  then show ?thesis by auto
next
  case (release tls l)
  then show ?thesis by (auto simp: released_append)
next
  case (hold tls l)
  from hold(1,2,3) have "\<not> (\<exists>t k. train_obs M w u t k \<and> (t \<notin> B \<or> \<not> 0 < hold_get (train_hold_left a) (t, u)))"
    using train_obs_unique[OF hold(1)] by blast
  with hold(4) show ?thesis by (auto simp: released_append)
qed

lemma base_add_link: "base (add_link d t l) t' = (if t' = t then insert l (base d t) else base d t')"
  by (simp add: base_def add_link_def)

lemma base_Some: "d t = Some S \<Longrightarrow> base d t = S"
  by (simp add: base_def)

lemma add_link_Some: "add_link d t l t' = Some S \<Longrightarrow> S = base (add_link d t l) t'"
  by (simp add: base_def)

lemma train_step_green:
  assumes "train_green (train_step M w B v a) t = Some S" "l \<in> S"
  shows "l \<in> base (train_green a) t \<or>
         (train_obs M w v t l \<and> SetSpeed v (- 1) \<in> set (train_cmds (train_step M w B v a)))"
proof (cases rule: train_step_cases[of M w v B a])
  case skip
  with assms show ?thesis by (simp add: base_def)
next
  case (hold tls k)
  with assms show ?thesis by (simp add: base_def)
next
  case (release tls k)
  from release(3) have g: "train_green (train_step M w B v a) = add_link (train_green a) tls k"
    and c: "SetSpeed v (- 1) \<in> set (train_cmds (train_step M w B v a))"
    by simp_all
  from assms g have "l \<in> base (add_link (train_green a) tls k) t"
    by (simp add: base_def)
  then have "l \<in> base (train_green a) t \<or> (t = tls \<and> l = k)"
    by (auto simp: base_add_link split: if_splits)
  with release(1) c show ?thesis by blast
qed

lemma train_step_green_mono:
  assumes "l \<in> base (train_green a) t"
  shows "l \<in> base (train_green (train_step M w B v a)) t"
proof (cases rule: train_step_cases[of M w v B a])
  case skip
  with assms show ?thesis by simp
next
  case (hold tls k)
  with assms show ?thesis by (simp add: base_def)
next
  case (release tls k)
  from release(3) have "train_green (train_step M w B v a) = add_link (train_green a) tls k"
    by simp
  with assms show ?thesis by (auto simp: base_add_link)
qed

lemma train_step_green_empty:
  assumes "train_green (train_step M w B v a) t = Some {}"
  shows "train_green a t = Some {}"
proof (cases rule: train_step_cases[of M w v B a])
  case skip
  with assms show ?thesis by simp
next
  case (hold tls k)
  with assms show ?thesis by simp
next
  case (release tls k)
  from release(3) have "train_green (train_step M w B v a) = add_link (train_green a) tls k"
    by simp
  with assms show ?thesis by (simp add: add_link_def split: if_splits)
qed

lemma train_step_keep:
  assumes "\<not> 0 < hold_get (train_hold_left a) (tls, v)"
  shows "train_hold_left (train_step M w B u a) (tls, v) = train_hold_left a (tls, v)"
proof (cases rule: train_step_cases[of M w u B a])
  case skip
  then show ?thesis by simp
next
  case (hold t k)
  from hold(3) assms have "\<not> (t = tls \<and> u = v)" by auto
  with hold(4) show ?thesis by auto
next
  case (release t k)
  then show ?thesis by simp
qed

subsection \<open>The loop over the vehicles\<close>

lemma fold_train_near:
  "t \<in> train_near (fold (train_step M w B) vs a) \<longleftrightarrow>
     t \<in> train_near a \<or> (\<exists>v\<in>set vs. \<exists>l. train_obs M w v t l)"
  by (induction vs arbitrary: a) (auto simp: train_step_near)

lemma fold_train_cmds_mono:
  "c \<in> set (train_cmds a) \<Longrightarrow> c \<in> set (train_cmds (fold (train_step M w B) vs a))"
  by (induction vs arbitrary: a) (simp_all add: train_step_cmds_mono)

lemma fold_train_ledger_other:
  "v \<notin> set vs \<Longrightarrow>
   train_hold_left (fold (train_step M w B) vs a) (t, v) = train_hold_left a (t, v)"
proof (induction vs arbitrary: a)
  case Nil
  show ?case by simp
next
  case (Cons x xs)
  from Cons.prems have "x \<noteq> v" "v \<notin> set xs" by auto
  from Cons.IH[OF this(2), of "train_step M w B x a"] train_step_ledger_other[OF this(1), of M w B a t]
  show ?case by simp
qed

lemma fold_train_budget_mono:
  "hold_get (train_hold_left (fold (train_step M w B) vs a)) key \<le> hold_get (train_hold_left a) key"
proof (induction vs arbitrary: a)
  case Nil
  show ?case by simp
next
  case (Cons x xs)
  have "hold_get (train_hold_left (fold (train_step M w B) xs (train_step M w B x a))) key
        \<le> hold_get (train_hold_left (train_step M w B x a)) key"
    by (rule Cons.IH)
  also have "\<dots> \<le> hold_get (train_hold_left a) key"
    by (rule train_step_budget_mono)
  finally show ?case by simp
qed

lemma fold_train_ledger_ok:
  "ledger_ok (train_hold_left a) \<Longrightarrow> ledger_ok (train_hold_left (fold (train_step M w B) vs a))"
  by (induction vs arbitrary: a) (simp_all add: train_step_ledger_ok)

lemma fold_train_keep:
  "\<not> 0 < hold_get (train_hold_left a) (tls, v) \<Longrightarrow>
   train_hold_left (fold (train_step M w B) vs a) (tls, v) = train_hold_left a (tls, v)"
proof (induction vs arbitrary: a)
  case Nil
  show ?case by simp
next
  case (Cons x xs)
  have e: "train_hold_left (train_step M w B x a) (tls, v) = train_hold_left a (tls, v)"
    using Cons.prems by (rule train_step_keep)
  then have "\<not> 0 < hold_get (train_hold_left (train_step M w B x a)) (tls, v)"
    using Cons.prems by (simp add: hold_get_def)
  from Cons.IH[OF this] e show ?case by simp
qed

lemma fold_train_released_other:
  "v \<notin> set vs \<Longrightarrow>
   released v (train_cmds (fold (train_step M w B) vs a)) = released v (train_cmds a)"
proof (induction vs arbitrary: a)
  case Nil
  show ?case by simp
next
  case (Cons x xs)
  from Cons.prems have "x \<noteq> v" "v \<notin> set xs" by auto
  from Cons.IH[OF this(2), of "train_step M w B x a"] this(1) train_step_released[of v M w B x a]
  show ?case by simp
qed

lemma fold_train_slowed:
  assumes "slowed v (train_cmds (fold (train_step M w B) vs a))" "\<not> slowed v (train_cmds a)"
  shows "v \<in> set vs \<and>
         (\<exists>tls l. train_obs M w v tls l \<and> tls \<in> B \<and>
             0 < hold_get (train_hold_left a) (tls, v) \<and>
             hold_get (train_hold_left (fold (train_step M w B) vs a)) (tls, v)
               < hold_get (train_hold_left a) (tls, v))"
  using assms
proof (induction vs arbitrary: a)
  case Nil
  then show ?case by simp
next
  case (Cons x xs)
  let ?a' = "train_step M w B x a"
  show ?case
  proof (cases "slowed v (train_cmds ?a')")
    case False
    from Cons.IH[of ?a'] Cons.prems(1) False obtain tls l where
      m: "v \<in> set xs" and o: "train_obs M w v tls l" "tls \<in> B"
      and p: "0 < hold_get (train_hold_left ?a') (tls, v)"
      and d: "hold_get (train_hold_left (fold (train_step M w B) xs ?a')) (tls, v)
              < hold_get (train_hold_left ?a') (tls, v)"
      by auto
    have le: "hold_get (train_hold_left ?a') (tls, v) \<le> hold_get (train_hold_left a) (tls, v)"
      by (rule train_step_budget_mono)
    from m o p d le show ?thesis by force
  next
    case True
    with Cons.prems(2) obtain tls l where xv: "x = v" and o: "train_obs M w v tls l" "tls \<in> B"
      and p: "0 < hold_get (train_hold_left a) (tls, v)"
      by (auto simp: train_step_slowed)
    from o p xv have "train_hold_left ?a' (tls, v) = Some (hold_get (train_hold_left a) (tls, v) - 1)"
      by (simp add: train_step_hold)
    then have "hold_get (train_hold_left ?a') (tls, v) < hold_get (train_hold_left a) (tls, v)"
      by (simp add: hold_get_def)
    moreover have "hold_get (train_hold_left (fold (train_step M w B) xs ?a')) (tls, v)
              \<le> hold_get (train_hold_left ?a') (tls, v)"
      by (rule fold_train_budget_mono)
    ultimately show ?thesis using xv o p by force
  qed
qed

lemma fold_train_green_mono:
  "l \<in> base (train_green a) t \<Longrightarrow> l \<in> base (train_green (fold (train_step M w B) vs a)) t"
  by (induction vs arbitrary: a) (simp_all add: train_step_green_mono)

lemma fold_train_green_empty:
  "train_green (fold (train_step M w B) vs a) t = Some {} \<Longrightarrow> train_green a t = Some {}"
proof (induction vs arbitrary: a)
  case Nil
  then show ?case by simp
next
  case (Cons x xs)
  from Cons.IH[of "train_step M w B x a"] Cons.prems
  have "train_green (train_step M w B x a) t = Some {}" by simp
  then show ?case by (rule train_step_green_empty)
qed

lemma fold_train_green:
  assumes "train_green (fold (train_step M w B) vs a) t = Some S" "l \<in> S"
  shows "l \<in> base (train_green a) t \<or>
         (\<exists>v\<in>set vs. train_obs M w v t l \<and>
            SetSpeed v (- 1) \<in> set (train_cmds (fold (train_step M w B) vs a)))"
  using assms
proof (induction vs arbitrary: a)
  case Nil
  then show ?case by (simp add: base_def)
next
  case (Cons x xs)
  let ?a' = "train_step M w B x a"
  from Cons.IH[of ?a'] Cons.prems
  consider (old) "l \<in> base (train_green ?a') t"
    | (new) v where "v \<in> set xs" "train_obs M w v t l"
        "SetSpeed v (- 1) \<in> set (train_cmds (fold (train_step M w B) xs ?a'))"
    by auto
  then show ?case
  proof cases
    case new
    then show ?thesis by auto
  next
    case old
    show ?thesis
    proof (cases "train_green ?a' t")
      case None
      with old show ?thesis by (simp add: base_def)
    next
      case (Some S')
      with old have "l \<in> S'" by (simp add: base_def)
      from train_step_green[OF Some this]
      consider "l \<in> base (train_green a) t"
        | "train_obs M w x t l" "SetSpeed x (- 1) \<in> set (train_cmds ?a')"
        by blast
      then show ?thesis
      proof cases
        case 1
        then show ?thesis by simp
      next
        case 2
        from 2(2) have "SetSpeed x (- 1) \<in> set (train_cmds (fold (train_step M w B) xs ?a'))"
          by (rule fold_train_cmds_mono)
        with 2(1) show ?thesis by auto
      qed
    qed
  qed
qed

lemma train_obs_meta:
  "train_obs M w v tls l \<Longrightarrow> \<exists>m. map_of M tls = Some m \<and> is_crossing m"
  by (cases "getNextTLS w v") (auto simp: train_obs_def split: option.splits)

lemma tick_train_near:
  "t \<in> train_near (tick_train M w L) \<longleftrightarrow> train_links M w (getIDList w) t \<noteq> {}"
proof -
  have "train_links M w (getIDList w) t \<noteq> {} \<longleftrightarrow>
        (\<exists>l. l \<in> train_links M w (getIDList w) t)"
    by blast
  then show ?thesis
    by (simp add: tick_train_def train_phase_def fold_train_near train_links_mem) blast
qed

lemma tick_train_green:
  assumes "train_green (tick_train M w L) t = Some S"
  shows "S \<noteq> {}" "S \<subseteq> train_links M w (getIDList w) t"
proof -
  let ?a = "\<lparr>train_near = {}, train_green = Map.empty, train_hold_left = L, train_cmds = []\<rparr>"
  from assms have f: "train_green (fold (train_step M w (blocked_tls (ems_claims w))) (getIDList w) ?a) t = Some S"
    by (simp add: tick_train_def train_phase_def)
  show "S \<noteq> {}"
  proof
    assume "S = {}"
    with f have "train_green ?a t = Some {}" by (auto dest: fold_train_green_empty)
    then show False by simp
  qed
  show "S \<subseteq> train_links M w (getIDList w) t"
  proof
    fix l assume "l \<in> S"
    from fold_train_green[OF f this] show "l \<in> train_links M w (getIDList w) t"
      by (auto simp: base_def train_links_mem)
  qed
qed

lemma tick_train_green_near:
  "t \<in> dom (train_green (tick_train M w L)) \<Longrightarrow> t \<in> train_near (tick_train M w L)"
  using tick_train_green[of M w L t] by (auto simp: tick_train_near)

lemma tick_crg_Some:
  "tick_crg M w L t = Some S \<longleftrightarrow>
     (\<exists>m. map_of M t = Some m \<and> is_crossing m \<and> S = road_idxs m \<and>
          ems_links w (getIDList w) t = {} \<and> train_links M w (getIDList w) t = {})"
  by (auto simp: tick_crg_def crossing_road_green_def ems_claims_blocked ems_dom tick_train_near
           split: option.splits)

lemma tick_crg_train_excl:
  "tick_crg M w L t = Some S \<Longrightarrow> train_green (tick_train M w L) t = None"
proof (rule ccontr)
  assume c: "tick_crg M w L t = Some S" and "train_green (tick_train M w L) t \<noteq> None"
  then have "t \<in> train_near (tick_train M w L)" by (auto intro: tick_train_green_near)
  with c show False by (simp add: tick_crg_Some tick_train_near)
qed

lemma touched_meta:
  assumes "t \<in> touched M w L" "t \<notin> dom (ems_green (ems_claims w))"
  shows "\<exists>m. map_of M t = Some m \<and> is_crossing m"
proof -
  from assms consider S where "train_green (tick_train M w L) t = Some S"
    | S where "tick_crg M w L t = Some S"
    by (auto simp: touched_def)
  then show ?thesis
  proof cases
    case 1
    from tick_train_green[OF 1] obtain l where "l \<in> train_links M w (getIDList w) t" by auto
    then show ?thesis by (auto simp: train_links_mem dest: train_obs_meta)
  next
    case 2
    then show ?thesis by (auto simp: tick_crg_Some)
  qed
qed

lemma touched_finite: "finite (touched M w L)"
proof -
  have "touched M w L \<subseteq> dom (ems_green (ems_claims w)) \<union> fst ` set M"
  proof
    fix t assume t: "t \<in> touched M w L"
    show "t \<in> dom (ems_green (ems_claims w)) \<union> fst ` set M"
    proof (cases "t \<in> dom (ems_green (ems_claims w))")
      case True
      then show ?thesis by simp
    next
      case False
      from touched_meta[OF t False] obtain m where "map_of M t = Some m" by auto
      then have "(t, m) \<in> set M" by (rule map_of_SomeD)
      then have "t \<in> fst ` set M" by force
      then show ?thesis by simp
    qed
  qed
  moreover have "finite (dom (ems_green (ems_claims w)) \<union> fst ` set M)"
    by (simp add: ems_dom_finite)
  ultimately show ?thesis by (rule finite_subset)
qed

lemma apply_all_Inr:
  assumes "apply_all M t e tr c tlss = Inr (evs, cs)"
  shows "ev \<in> set evs \<longleftrightarrow> (\<exists>tls\<in>set tlss. \<exists>c'. apply_tls M t e tr c tls = Inr (ev, c'))"
  using assms
proof (induction tlss arbitrary: evs cs)
  case Nil
  then show ?case by simp
next
  case (Cons x xs)
  from Cons.prems obtain ev1 c1 evs' cs' where
    a: "apply_tls M t e tr c x = Inr (ev1, c1)" and
    b: "apply_all M t e tr c xs = Inr (evs', cs')" and
    e: "evs = ev1 # evs'"
    by (auto split: sum.splits)
  from Cons.IH[OF b] a e show ?case by auto
qed

lemma apply_all_ok:
  assumes "\<forall>tls\<in>set tlss. \<exists>r. apply_tls M t e tr c tls = Inr r"
  shows "\<exists>r. apply_all M t e tr c tlss = Inr r"
  using assms
proof (induction tlss)
  case Nil
  then show ?case by simp
next
  case (Cons x xs)
  then obtain r1 r2 where "apply_tls M t e tr c x = Inr r1" "apply_all M t e tr c xs = Inr r2"
    by auto
  then show ?case by (cases r1, cases r2) simp
qed

lemma apply_tls_Inr:
  assumes "apply_tls M t e tr c tls = Inr (ev, cs)"
  shows "\<exists>m st. map_of M tls = Some m \<and>
           build_state (n_links m) (greens (resolve m e tr c tls)) (force_red (resolve m e tr c tls)) = Inr st \<and>
           ev = (t, event_type (resolve m e tr c tls), source (resolve m e tr c tls), tls, st) \<and>
           cs = [SetRedYellowGreenState tls st, SetPhaseDuration tls PULSE]"
  using assms by (auto simp: apply_tls_def Let_def split: option.splits sum.splits)

lemma apply_tls_iff:
  "(\<exists>c'. apply_tls M t e tr c tls = Inr (ev, c')) \<longleftrightarrow>
   (\<exists>m st. map_of M tls = Some m \<and>
      build_state (n_links m) (greens (resolve m e tr c tls)) (force_red (resolve m e tr c tls)) = Inr st \<and>
      ev = (t, event_type (resolve m e tr c tls), source (resolve m e tr c tls), tls, st))"
proof
  assume "\<exists>c'. apply_tls M t e tr c tls = Inr (ev, c')"
  then obtain c' where "apply_tls M t e tr c tls = Inr (ev, c')" ..
  from apply_tls_Inr[OF this]
  show "\<exists>m st. map_of M tls = Some m \<and>
      build_state (n_links m) (greens (resolve m e tr c tls)) (force_red (resolve m e tr c tls)) = Inr st \<and>
      ev = (t, event_type (resolve m e tr c tls), source (resolve m e tr c tls), tls, st)"
    by blast
next
  assume "\<exists>m st. map_of M tls = Some m \<and>
      build_state (n_links m) (greens (resolve m e tr c tls)) (force_red (resolve m e tr c tls)) = Inr st \<and>
      ev = (t, event_type (resolve m e tr c tls), source (resolve m e tr c tls), tls, st)"
  then obtain m st where "map_of M tls = Some m"
    "build_state (n_links m) (greens (resolve m e tr c tls)) (force_red (resolve m e tr c tls)) = Inr st"
    "ev = (t, event_type (resolve m e tr c tls), source (resolve m e tr c tls), tls, st)"
    by blast
  then show "\<exists>c'. apply_tls M t e tr c tls = Inr (ev, c')"
    by (simp add: apply_tls_def Let_def)
qed

lemma tick_unfold:
  "tick M w L =
    (case apply_all M (getTime w) (ems_green (ems_claims w)) (train_green (tick_train M w L))
            (tick_crg M w L) (sorted_list_of_set (touched M w L)) of
       Inl err \<Rightarrow> Inl err
     | Inr (evs, cs) \<Rightarrow>
         Inr \<lparr>events = evs,
              cmds = ems_cmds (ems_claims w) @ train_cmds (tick_train M w L) @ cs,
              hold_left = prune w (train_hold_left (tick_train M w L))\<rparr>)"
  unfolding tick_def Let_def tick_train_def tick_crg_def touched_def
  by (simp split: sum.splits prod.splits)

text \<open>What a completed pass has written: one row per touched intersection, built from
  the resolution of that intersection.\<close>
lemma tick_events:
  assumes "tick M w L = Inr out"
  shows "ev \<in> set (events out) \<longleftrightarrow>
         (\<exists>tls\<in>touched M w L. \<exists>m st d. map_of M tls = Some m \<and>
            tick_decision M w L tls = Some d \<and>
            build_state (n_links m) (greens d) (force_red d) = Inr st \<and>
            ev = (getTime w, event_type d, source d, tls, st))"
proof -
  from assms obtain evs cs where
    a: "apply_all M (getTime w) (ems_green (ems_claims w)) (train_green (tick_train M w L))
            (tick_crg M w L) (sorted_list_of_set (touched M w L)) = Inr (evs, cs)"
    and e: "events out = evs"
    by (auto simp: tick_unfold split: sum.splits)
  have s: "set (sorted_list_of_set (touched M w L)) = touched M w L"
    by (simp add: touched_finite)
  define R where "R = (\<lambda>m tls. resolve m (ems_green (ems_claims w))
        (train_green (tick_train M w L)) (tick_crg M w L) tls)"
  have d: "\<And>tls m. map_of M tls = Some m \<Longrightarrow> tick_decision M w L tls = Some (R m tls)"
    by (simp add: tick_decision_def R_def)
  have "ev \<in> set evs \<longleftrightarrow>
        (\<exists>tls\<in>touched M w L. \<exists>m st. map_of M tls = Some m \<and>
           build_state (n_links m) (greens (R m tls)) (force_red (R m tls)) = Inr st \<and>
           ev = (getTime w, event_type (R m tls), source (R m tls), tls, st))"
    unfolding apply_all_Inr[OF a] s apply_tls_iff R_def ..
  also have "\<dots> \<longleftrightarrow>
        (\<exists>tls\<in>touched M w L. \<exists>m st d. map_of M tls = Some m \<and>
            tick_decision M w L tls = Some d \<and>
            build_state (n_links m) (greens d) (force_red d) = Inr st \<and>
            ev = (getTime w, event_type d, source d, tls, st))"
  proof (intro bex_cong refl ex_cong1 iffI)
    fix tls m st
    assume h: "map_of M tls = Some m \<and>
           build_state (n_links m) (greens (R m tls)) (force_red (R m tls)) = Inr st \<and>
           ev = (getTime w, event_type (R m tls), source (R m tls), tls, st)"
    then have "tick_decision M w L tls = Some (R m tls)" by (simp add: d)
    with h show "\<exists>d. map_of M tls = Some m \<and>
            tick_decision M w L tls = Some d \<and>
            build_state (n_links m) (greens d) (force_red d) = Inr st \<and>
            ev = (getTime w, event_type d, source d, tls, st)"
      by blast
  next
    fix tls m st
    assume "\<exists>d. map_of M tls = Some m \<and>
            tick_decision M w L tls = Some d \<and>
            build_state (n_links m) (greens d) (force_red d) = Inr st \<and>
            ev = (getTime w, event_type d, source d, tls, st)"
    then obtain d' where h: "map_of M tls = Some m" "tick_decision M w L tls = Some d'"
      "build_state (n_links m) (greens d') (force_red d') = Inr st"
      "ev = (getTime w, event_type d', source d', tls, st)"
      by blast
    from h(1,2) have "d' = R m tls" by (simp add: d)
    with h show "map_of M tls = Some m \<and>
           build_state (n_links m) (greens (R m tls)) (force_red (R m tls)) = Inr st \<and>
           ev = (getTime w, event_type (R m tls), source (R m tls), tls, st)"
      by simp
  qed
  finally show ?thesis unfolding e .
qed

lemma tick_hold_left:
  "tick M w L = Inr out \<Longrightarrow> hold_left out = prune w (train_hold_left (tick_train M w L))"
  by (auto simp: tick_unfold split: sum.splits)

text \<open>The commands of step 2 are among the commands of the pass.\<close>
lemma tick_train_cmds:
  "tick M w L = Inr out \<Longrightarrow> set (train_cmds (tick_train M w L)) \<subseteq> set (cmds out)"
  by (auto simp: tick_unfold split: sum.splits)

lemma classify_ok:
  assumes "classify g (enumerate k xs) (rail, road, e) = Inr (rail', road', e')"
    "rail \<union> road = {0..<int k}" "rail \<inter> road = {}"
  shows "rail' \<union> road' = {0..<int (k + length xs)} \<and> rail' \<inter> road' = {}"
  using assms
proof (induction xs arbitrary: k rail road e)
  case Nil
  then show ?case by simp
next
  case (Cons x xs)
  from Cons.prems(1) obtain lane rest1 rest2 where x: "x = (lane, rest1) # rest2"
    by (cases x) (auto split: list.splits)
  have k: "int k \<notin> rail \<union> road" using Cons.prems(2) by simp
  have u: "insert (int k) (rail \<union> road) = {0..<int (Suc k)}"
    using Cons.prems(2) by auto
  show ?case
  proof (cases "prefix ''rail_'' (g lane)")
    case True
    with Cons.prems(1) x have
      c: "classify g (enumerate (Suc k) xs) (insert (int k) rail, road, e) = Inr (rail', road', e')"
      by (simp add: Let_def)
    have "insert (int k) rail \<union> road = {0..<int (Suc k)}" using u by simp
    moreover have "insert (int k) rail \<inter> road = {}" using k Cons.prems(3) by auto
    ultimately show ?thesis using Cons.IH[OF c] by simp
  next
    case False
    with Cons.prems(1) x obtain e1 where
      c: "classify g (enumerate (Suc k) xs) (rail, insert (int k) road, e1) = Inr (rail', road', e')"
      by (simp add: Let_def)
    have "rail \<union> insert (int k) road = {0..<int (Suc k)}" using u by simp
    moreover have "rail \<inter> insert (int k) road = {}" using k Cons.prems(3) by auto
    ultimately show ?thesis using Cons.IH[OF c] by simp
  qed
qed

lemma analyze_tls_ok:
  assumes "analyze_tls g ctrl = Inr m"
  shows "meta_ok m"
proof -
  from assms obtain rail road e where
    c: "classify g (enumerate 0 ctrl) ({}, {}, Map.empty) = Inr (rail, road, e)" and
    m: "m = \<lparr>n_links = length ctrl, rail_idxs = rail, road_idxs = road,
             inc_edge_to_link_idxs = e, is_crossing = (rail \<noteq> {})\<rparr>"
    by (auto simp: analyze_tls_def split: sum.splits)
  from classify_ok[OF c] have "rail \<union> road = {0..<int (length ctrl)} \<and> rail \<inter> road = {}"
    by simp
  with m show ?thesis by (simp add: meta_ok_def)
qed

lemma build_tls_meta_ok:
  assumes "build_tls_meta g c ids = Inr M" "map_of M tls = Some m"
  shows "meta_ok m"
  using assms
proof (induction ids arbitrary: M)
  case Nil
  then show ?case by simp
next
  case (Cons x xs)
  from Cons.prems(1) obtain m1 ms where
    a: "analyze_tls g (c x) = Inr m1" and b: "build_tls_meta g c xs = Inr ms" and
    M: "M = (x, m1) # ms"
    by (auto split: sum.splits)
  show ?case
  proof (cases "tls = x")
    case True
    with Cons.prems(2) M have "m = m1" by simp
    with a show ?thesis by (simp add: analyze_tls_ok)
  next
    case False
    with Cons.prems(2) M have "map_of ms tls = Some m" by simp
    from Cons.IH[OF b this] show ?thesis .
  qed
qed

lemma meta_ok_finite: "meta_ok m \<Longrightarrow> finite (rail_idxs m) \<and> finite (road_idxs m)"
proof -
  assume "meta_ok m"
  then have "rail_idxs m \<union> road_idxs m = {0..<int (n_links m)}" by (simp add: meta_ok_def)
  then have "finite (rail_idxs m \<union> road_idxs m)" by simp
  then show ?thesis by simp
qed

lemma meta_ok_range:
  "meta_ok m \<Longrightarrow> i \<in> rail_idxs m \<union> road_idxs m \<Longrightarrow> 0 \<le> i \<and> i < int (n_links m)"
  by (auto simp: meta_ok_def)

lemma meta_ok_disj: "meta_ok m \<Longrightarrow> i \<in> rail_idxs m \<Longrightarrow> i \<notin> road_idxs m"
  by (auto simp: meta_ok_def)

lemma pos_nonneg: "0 \<le> i \<Longrightarrow> pos n i = nat i"
  by (simp add: pos_def)

text \<open>Reading the state string at the links the code names.\<close>
lemma build_state_forced:
  assumes "build_state n g f = Inr st" "finite g" "finite f" "j \<in> f" "0 \<le> j"
  shows "st ! nat j = CHR ''r''"
proof -
  from build_state_Inr(2)[OF assms(1-3)] assms(4) have "in_range n j" by blast
  with assms(5) have l: "nat j < n" by (simp add: in_range_def)
  from assms(4,5) have "nat j \<in> pos n ` f" by (force simp: pos_nonneg image_iff)
  with build_state_Inr(3)[OF assms(1-3)] l show ?thesis by simp
qed

lemma build_state_green:
  assumes "build_state n g f = Inr st" "finite g" "finite f" "k \<in> g" "0 \<le> k"
    "k \<notin> f" "\<forall>j\<in>f. 0 \<le> j"
  shows "st ! nat k = CHR ''G''"
proof -
  from build_state_Inr(2)[OF assms(1-3)] assms(4) have "in_range n k" by blast
  with assms(5) have l: "nat k < n" by (simp add: in_range_def)
  from assms(4,5) have g: "nat k \<in> pos n ` g" by (force simp: pos_nonneg image_iff)
  have "nat k \<notin> pos n ` f"
  proof
    assume "nat k \<in> pos n ` f"
    then obtain j where j: "j \<in> f" "nat k = pos n j" by blast
    with assms(7) have "nat k = nat j" "0 \<le> j" by (simp_all add: pos_nonneg)
    with assms(5) have "k = j" by simp
    with j(1) assms(6) show False by simp
  qed
  with build_state_Inr(3)[OF assms(1-3)] l g show ?thesis by simp
qed

lemma build_state_red:
  assumes "build_state n g f = Inr st" "finite g" "finite f" "i < n"
    "int i \<notin> g" "\<forall>k\<in>g. 0 \<le> k"
  shows "st ! i = CHR ''r''"
proof -
  have "i \<notin> pos n ` g"
  proof
    assume "i \<in> pos n ` g"
    then obtain k where k: "k \<in> g" "i = pos n k" by blast
    with assms(6) have "i = nat k" "0 \<le> k" by (simp_all add: pos_nonneg)
    then have "int i = k" by simp
    with k(1) assms(5) show False by simp
  qed
  with build_state_Inr(3)[OF assms(1-3)] assms(4) show ?thesis by simp
qed

lemma build_state_length:
  "build_state n g f = Inr st \<Longrightarrow> length st = n"
  by (auto simp: build_state_def dest!: assign_all_Inr split: sum.splits if_splits)

lemma apply_all_each:
  assumes "apply_all M t e tr c tlss = Inr (evs, cs)" "tls \<in> set tlss"
  shows "\<exists>ev c'. apply_tls M t e tr c tls = Inr (ev, c')"
  using assms
proof (induction tlss arbitrary: evs cs)
  case Nil
  then show ?case by simp
next
  case (Cons x xs)
  from Cons.prems(1) obtain ev1 c1 evs' cs' where
    a: "apply_tls M t e tr c x = Inr (ev1, c1)" and
    b: "apply_all M t e tr c xs = Inr (evs', cs')"
    by (auto split: sum.splits)
  show ?case
  proof (cases "tls = x")
    case True
    with a show ?thesis by blast
  next
    case False
    with Cons.prems(2) have "tls \<in> set xs" by simp
    from Cons.IH[OF b this] show ?thesis .
  qed
qed

text \<open>A completed pass has written a state for every touched intersection.\<close>
lemma tick_touched:
  assumes "tick M w L = Inr out" "tls \<in> touched M w L"
  shows "\<exists>m d st. map_of M tls = Some m \<and> tick_decision M w L tls = Some d \<and>
           build_state (n_links m) (greens d) (force_red d) = Inr st \<and>
           (getTime w, event_type d, source d, tls, st) \<in> set (events out)"
proof -
  from assms(1) obtain evs cs where
    a: "apply_all M (getTime w) (ems_green (ems_claims w)) (train_green (tick_train M w L))
            (tick_crg M w L) (sorted_list_of_set (touched M w L)) = Inr (evs, cs)"
    by (auto simp: tick_unfold split: sum.splits)
  have s: "tls \<in> set (sorted_list_of_set (touched M w L))"
    using assms(2) by (simp add: touched_finite)
  from apply_all_each[OF a s] obtain ev c' where
    t: "apply_tls M (getTime w) (ems_green (ems_claims w)) (train_green (tick_train M w L))
            (tick_crg M w L) tls = Inr (ev, c')"
    by blast
  from apply_tls_Inr[OF t] obtain m st where
    m: "map_of M tls = Some m" and
    b: "build_state (n_links m)
          (greens (resolve m (ems_green (ems_claims w)) (train_green (tick_train M w L)) (tick_crg M w L) tls))
          (force_red (resolve m (ems_green (ems_claims w)) (train_green (tick_train M w L)) (tick_crg M w L) tls)) = Inr st"
    and e: "ev = (getTime w,
          event_type (resolve m (ems_green (ems_claims w)) (train_green (tick_train M w L)) (tick_crg M w L) tls),
          source (resolve m (ems_green (ems_claims w)) (train_green (tick_train M w L)) (tick_crg M w L) tls), tls, st)"
    by blast
  from m have d: "tick_decision M w L tls = Some (resolve m (ems_green (ems_claims w))
        (train_green (tick_train M w L)) (tick_crg M w L) tls)"
    by (simp add: tick_decision_def)
  have "ev \<in> set (events out)"
    unfolding tick_events[OF assms(1)] using assms(2) m d b e by blast
  with m d b e show ?thesis by blast
qed

subsection \<open>The resolution\<close>

lemma resolve_ems:
  "e tls = Some S \<Longrightarrow>
   resolve m e tr c tls =
     \<lparr>greens = S, force_red = rail_idxs m, event_type = ''ems_preempt'', source = ''ems''\<rparr>"
  by (simp add: resolve_def)

lemma resolve_train:
  "e tls = None \<Longrightarrow> tr tls = Some S \<Longrightarrow> c tls = None \<Longrightarrow>
   resolve m e tr c tls =
     \<lparr>greens = S, force_red = {}, event_type = ''train_request'', source = ''train''\<rparr>"
  by (simp add: resolve_def)

lemma resolve_road:
  "e tls = None \<Longrightarrow> tr tls = None \<Longrightarrow> c tls = Some S \<Longrightarrow>
   resolve m e tr c tls =
     \<lparr>greens = S, force_red = {}, event_type = ''road_keep_green'', source = ''controller''\<rparr>"
  by (simp add: resolve_def)

lemma resolve_tag:
  assumes "tls \<in> dom e \<union> dom tr \<union> dom c"
  shows "event_type (resolve m e tr c tls) = ''ems_preempt'' \<or>
         event_type (resolve m e tr c tls) = ''train_request'' \<or>
         event_type (resolve m e tr c tls) = ''road_keep_green''"
proof (cases "e tls")
  case (Some S)
  then show ?thesis by (simp add: resolve_def)
next
  case None
  note e = this
  show ?thesis
  proof (cases "tr tls")
    case (Some S)
    with e show ?thesis by (simp add: resolve_def)
  next
    case None
    with e assms obtain S where "c tls = Some S" by auto
    with e None show ?thesis by (simp add: resolve_def)
  qed
qed

subsection \<open>A pass over well-formed observations raises nothing\<close>

lemma obs_ok_link:
  assumes "obs_ok M w" "v \<in> set (getIDList w)" "getNextTLS w v = (t, l, r) # rest"
  shows "\<exists>m. map_of M t = Some m \<and> 0 \<le> l \<and> l < int (n_links m)"
proof -
  from assms(1,2) have
    "case getNextTLS w v of [] \<Rightarrow> True
     | (t, l, _) # _ \<Rightarrow> (case map_of M t of None \<Rightarrow> False
                          | Some m \<Rightarrow> 0 \<le> l \<and> l < int (n_links m))"
    unfolding obs_ok_def by blast
  with assms(3) show ?thesis by (cases "map_of M t") simp_all
qed

lemma obs_ok_ems:
  assumes "obs_ok M w" "l \<in> ems_links w (getIDList w) tls"
  shows "\<exists>m. map_of M tls = Some m \<and> 0 \<le> l \<and> l < int (n_links m)"
proof -
  from assms(2) obtain v where v: "v \<in> set (getIDList w)" and c: "ems_claim w v tls l"
    by (auto simp: ems_links_def list_ex_iff)
  from c obtain d s rest where "getNextTLS w v = (tls, l, d, s) # rest"
    by (cases "getNextTLS w v") (auto simp: ems_claim_def)
  from obs_ok_link[OF assms(1) v this] show ?thesis .
qed

lemma obs_ok_train:
  assumes "obs_ok M w" "l \<in> train_links M w (getIDList w) tls"
  shows "\<exists>m. map_of M tls = Some m \<and> 0 \<le> l \<and> l < int (n_links m)"
proof -
  from assms(2) obtain v where v: "v \<in> set (getIDList w)" and c: "train_obs M w v tls l"
    by (auto simp: train_links_mem)
  from c obtain d s rest where "getNextTLS w v = (tls, l, d, s) # rest"
    by (cases "getNextTLS w v") (auto simp: train_obs_def)
  from obs_ok_link[OF assms(1) v this] show ?thesis .
qed

lemma train_links_finite: "finite (train_links M w vs tls)"
proof -
  have "train_links M w vs tls \<subseteq> (\<lambda>v. fst (snd (hd (getNextTLS w v)))) ` set vs"
  proof
    fix l assume "l \<in> train_links M w vs tls"
    then obtain v where v: "v \<in> set vs" and c: "train_obs M w v tls l"
      by (auto simp: train_links_mem)
    from c have "l = fst (snd (hd (getNextTLS w v)))"
      by (cases "getNextTLS w v") (auto simp: train_obs_def)
    with v show "l \<in> (\<lambda>v. fst (snd (hd (getNextTLS w v)))) ` set vs" by blast
  qed
  then show ?thesis by (rule finite_subset) simp
qed

lemma tick_completes:
  assumes "build_tls_meta getEdgeID getControlledLinks ids = Inr M" "obs_ok M w"
  shows "\<exists>out. tick M w L = Inr out"
proof -
  let ?e = "ems_green (ems_claims w)"
  let ?tr = "train_green (tick_train M w L)"
  let ?c = "tick_crg M w L"
  have each: "\<exists>r. apply_tls M (getTime w) ?e ?tr ?c tls = Inr r" if t: "tls \<in> touched M w L" for tls
  proof -
    have "\<exists>m. map_of M tls = Some m"
    proof (cases "tls \<in> dom ?e")
      case True
      then obtain l where "l \<in> ems_links w (getIDList w) tls" by (auto simp: ems_dom)
      from obs_ok_ems[OF assms(2) this] show ?thesis by blast
    next
      case False
      from touched_meta[OF t False] show ?thesis by blast
    qed
    then obtain m where m: "map_of M tls = Some m" ..
    have ok: "meta_ok m" using assms(1) m by (rule build_tls_meta_ok)
    have rg: "in_range (n_links m) i" if "i \<in> rail_idxs m \<union> road_idxs m" for i
    proof -
      from meta_ok_range[OF ok that] have "0 \<le> i \<and> i < int (n_links m)" .
      then show ?thesis unfolding in_range_def by linarith
    qed
    let ?d = "resolve m ?e ?tr ?c tls"
    have "finite (greens ?d) \<and> finite (force_red ?d) \<and>
          (\<forall>i\<in>greens ?d \<union> force_red ?d. in_range (n_links m) i)"
    proof (cases "?e tls")
      case (Some S)
      then have S: "S = ems_links w (getIDList w) tls"
        by (auto simp: ems_claims_green split: if_splits)
      have "\<forall>i\<in>S. in_range (n_links m) i"
      proof
        fix i assume "i \<in> S"
        with S obs_ok_ems[OF assms(2), of i tls] m have "0 \<le> i \<and> i < int (n_links m)" by simp
        then show "in_range (n_links m) i" unfolding in_range_def by linarith
      qed
      with Some S rg meta_ok_finite[OF ok] show ?thesis
        by (auto simp: resolve_ems ems_links_finite)
    next
      case None
      note e = this
      show ?thesis
      proof (cases "?tr tls")
        case (Some S)
        have cn: "?c tls = None"
        proof (cases "?c tls")
          case (Some R)
          from tick_crg_train_excl[OF this] \<open>?tr tls = Some S\<close> show ?thesis by simp
        qed simp
        from tick_train_green(2)[OF Some] have sub: "S \<subseteq> train_links M w (getIDList w) tls" .
        then have "finite S" using train_links_finite by (rule finite_subset)
        moreover have "\<forall>i\<in>S. in_range (n_links m) i"
        proof
          fix i assume "i \<in> S"
          with sub have "i \<in> train_links M w (getIDList w) tls" by blast
          from obs_ok_train[OF assms(2) this] m have "0 \<le> i \<and> i < int (n_links m)" by simp
          then show "in_range (n_links m) i" unfolding in_range_def by linarith
        qed
        ultimately show ?thesis using e Some cn by (simp add: resolve_train)
      next
        case None
        with e t obtain S where c: "?c tls = Some S" by (auto simp: touched_def)
        with m have "S = road_idxs m" by (simp add: tick_crg_Some)
        with e None c rg meta_ok_finite[OF ok] show ?thesis by (simp add: resolve_road)
      qed
    qed
    then obtain st where "build_state (n_links m) (greens ?d) (force_red ?d) = Inr st"
      using build_state_ok[of "greens ?d" "force_red ?d" "n_links m"] by blast
    with m show ?thesis by (simp add: apply_tls_def Let_def)
  qed
  have "\<forall>tls\<in>set (sorted_list_of_set (touched M w L)).
          \<exists>r. apply_tls M (getTime w) ?e ?tr ?c tls = Inr r"
    using each by (simp add: touched_finite)
  from apply_all_ok[OF this] obtain evs cs where
    "apply_all M (getTime w) ?e ?tr ?c (sorted_list_of_set (touched M w L)) = Inr (evs, cs)"
    by force
  then show ?thesis by (simp add: tick_unfold)
qed

subsection \<open>The commands of a pass\<close>

lemma ems_step_cmds:
  "c \<in> set (ems_cmds (ems_step w v a)) \<Longrightarrow>
   c \<in> set (ems_cmds a) \<or> c = SetLaneChangeMode v 0 \<or> c = SetSpeedMode v 0"
  by (cases "getNextTLS w v") (auto simp: ems_step_def split: if_splits)

lemma ems_fold_cmds:
  "c \<in> set (ems_cmds (fold (ems_step w) vs a)) \<Longrightarrow>
   c \<in> set (ems_cmds a) \<or> (\<exists>v. c = SetLaneChangeMode v 0 \<or> c = SetSpeedMode v 0)"
proof (induction vs arbitrary: a)
  case Nil
  then show ?case by simp
next
  case (Cons x xs)
  from Cons.IH[of "ems_step w x a"] Cons.prems
  have "c \<in> set (ems_cmds (ems_step w x a)) \<or> (\<exists>v. c = SetLaneChangeMode v 0 \<or> c = SetSpeedMode v 0)"
    by simp
  then show ?case using ems_step_cmds[of c w x a] by blast
qed

lemma ems_claims_cmds:
  "c \<in> set (ems_cmds (ems_claims w)) \<Longrightarrow> \<exists>v. c = SetLaneChangeMode v 0 \<or> c = SetSpeedMode v 0"
  using ems_fold_cmds[of c w "getIDList w" "\<lparr>ems_green = Map.empty, blocked_tls = {}, ems_cmds = []\<rparr>"]
  by (simp add: ems_claims_def)

lemma apply_all_cmds_kind:
  assumes "apply_all M t e tr c tlss = Inr (evs, cs)" "x \<in> set cs"
  shows "\<exists>tls st. x = SetRedYellowGreenState tls st \<or> x = SetPhaseDuration tls PULSE"
  using assms
proof (induction tlss arbitrary: evs cs)
  case Nil
  then show ?case by simp
next
  case (Cons y ys)
  from Cons.prems(1) obtain ev1 c1 evs' cs' where
    a: "apply_tls M t e tr c y = Inr (ev1, c1)" and
    b: "apply_all M t e tr c ys = Inr (evs', cs')" and
    e: "cs = c1 @ cs'"
    by (auto split: sum.splits)
  from apply_tls_Inr[OF a] obtain st where "c1 = [SetRedYellowGreenState y st, SetPhaseDuration y PULSE]"
    by blast
  with Cons.prems(2) e Cons.IH[OF b] show ?case by auto
qed

lemma slowed_iff: "slowed v cs \<longleftrightarrow> (\<exists>x y. SlowDown v x y \<in> set cs)"
proof
  assume "slowed v cs"
  then obtain c where c: "c \<in> set cs" "(case c of SlowDown u _ _ \<Rightarrow> u = v | _ \<Rightarrow> False)"
    by (auto simp: slowed_def list_ex_iff)
  from c(2) obtain x y where "c = SlowDown v x y" by (cases c) auto
  with c(1) show "\<exists>x y. SlowDown v x y \<in> set cs" by blast
next
  assume "\<exists>x y. SlowDown v x y \<in> set cs"
  then show "slowed v cs" by (auto intro: slowed_mem)
qed

text \<open>Only step 2 of a pass issues slow-downs.\<close>
lemma tick_slowed:
  assumes "tick M w L = Inr out"
  shows "slowed v (cmds out) \<longleftrightarrow> slowed v (train_cmds (tick_train M w L))"
proof -
  from assms obtain evs cs where
    a: "apply_all M (getTime w) (ems_green (ems_claims w)) (train_green (tick_train M w L))
            (tick_crg M w L) (sorted_list_of_set (touched M w L)) = Inr (evs, cs)"
    and c: "cmds out = ems_cmds (ems_claims w) @ train_cmds (tick_train M w L) @ cs"
    by (auto simp: tick_unfold split: sum.splits)
  have 1: "\<not> slowed v (ems_cmds (ems_claims w))"
    unfolding slowed_iff using ems_claims_cmds[of _ w] by blast
  have 2: "\<not> slowed v cs"
    unfolding slowed_iff using apply_all_cmds_kind[OF a] by blast
  from 1 2 show ?thesis by (simp add: c slowed_append)
qed

lemma train_step_cmds_kind:
  "c \<in> set (train_cmds (train_step M w B v a)) \<Longrightarrow>
   c \<in> set (train_cmds a) \<or> (\<exists>x y. c = SlowDown v x y) \<or> (\<exists>x. c = SetSpeed v x)"
  by (cases rule: train_step_cases[of M w v B a]) auto

lemma fold_train_cmds_kind:
  "c \<in> set (train_cmds (fold (train_step M w B) vs a)) \<Longrightarrow>
   c \<in> set (train_cmds a) \<or> (\<exists>v x y. c = SlowDown v x y) \<or> (\<exists>v x. c = SetSpeed v x)"
proof (induction vs arbitrary: a)
  case Nil
  then show ?case by simp
next
  case (Cons u us)
  from Cons.IH[of "train_step M w B u a"] Cons.prems
  have "c \<in> set (train_cmds (train_step M w B u a)) \<or>
        (\<exists>v x y. c = SlowDown v x y) \<or> (\<exists>v x. c = SetSpeed v x)"
    by simp
  then show ?case using train_step_cmds_kind[of c M w B u a] by blast
qed

lemma tick_train_cmds_kind:
  "c \<in> set (train_cmds (tick_train M w L)) \<Longrightarrow>
   (\<exists>v x y. c = SlowDown v x y) \<or> (\<exists>v x. c = SetSpeed v x)"
  using fold_train_cmds_kind[of c M w "blocked_tls (ems_claims w)" "getIDList w"
      "\<lparr>train_near = {}, train_green = Map.empty, train_hold_left = L, train_cmds = []\<rparr>"]
  by (simp add: tick_train_def train_phase_def)

text \<open>The state commands of the loop over \<^verbatim>\<open>touched\<close>: one for every intersection of the
  list, carrying the state built from the resolution of that intersection, and no other.\<close>
lemma apply_all_state_cmd:
  assumes "apply_all M t e tr c tlss = Inr (evs, cs)"
  shows "SetRedYellowGreenState tls st \<in> set cs \<longleftrightarrow>
         (tls \<in> set tlss \<and>
          (\<exists>m. map_of M tls = Some m \<and>
             build_state (n_links m) (greens (resolve m e tr c tls))
               (force_red (resolve m e tr c tls)) = Inr st))"
  using assms
proof (induction tlss arbitrary: evs cs)
  case Nil
  then show ?case by simp
next
  case (Cons x xs)
  from Cons.prems obtain ev1 c1 evs' cs' where
    a: "apply_tls M t e tr c x = Inr (ev1, c1)" and
    b: "apply_all M t e tr c xs = Inr (evs', cs')" and
    e: "cs = c1 @ cs'"
    by (auto split: sum.splits)
  from apply_tls_Inr[OF a] obtain m1 st1 where
    m1: "map_of M x = Some m1" and
    b1: "build_state (n_links m1) (greens (resolve m1 e tr c x))
           (force_red (resolve m1 e tr c x)) = Inr st1" and
    c1: "c1 = [SetRedYellowGreenState x st1, SetPhaseDuration x PULSE]"
    by blast
  note ih = Cons.IH[OF b]
  show ?case
  proof (cases "tls = x")
    case True
    have "SetRedYellowGreenState tls st \<in> set cs \<longleftrightarrow> st = st1"
      unfolding e using c1 True ih m1 b1 by auto
    moreover have "(\<exists>m. map_of M tls = Some m \<and>
             build_state (n_links m) (greens (resolve m e tr c tls))
               (force_red (resolve m e tr c tls)) = Inr st) \<longleftrightarrow> st = st1"
      using True m1 b1 by auto
    ultimately show ?thesis using True by simp
  next
    case False
    have "SetRedYellowGreenState tls st \<in> set cs \<longleftrightarrow> SetRedYellowGreenState tls st \<in> set cs'"
      unfolding e using c1 False by auto
    with ih False show ?thesis by simp
  qed
qed

text \<open>The state commands of a completed pass: a pass sends a state to an intersection iff
  the intersection is touched, and the state is the one built from its decision.\<close>
lemma tick_state_cmd:
  assumes "tick M w L = Inr out"
  shows "SetRedYellowGreenState tls st \<in> set (cmds out) \<longleftrightarrow>
         (tls \<in> touched M w L \<and>
          (\<exists>m d. map_of M tls = Some m \<and> tick_decision M w L tls = Some d \<and>
             build_state (n_links m) (greens d) (force_red d) = Inr st))"
proof -
  from assms obtain evs cs where
    a: "apply_all M (getTime w) (ems_green (ems_claims w)) (train_green (tick_train M w L))
            (tick_crg M w L) (sorted_list_of_set (touched M w L)) = Inr (evs, cs)"
    and c: "cmds out = ems_cmds (ems_claims w) @ train_cmds (tick_train M w L) @ cs"
    by (auto simp: tick_unfold split: sum.splits)
  have 1: "SetRedYellowGreenState tls st \<notin> set (ems_cmds (ems_claims w))"
    using ems_claims_cmds[of "SetRedYellowGreenState tls st" w] by auto
  have 2: "SetRedYellowGreenState tls st \<notin> set (train_cmds (tick_train M w L))"
    using tick_train_cmds_kind[of "SetRedYellowGreenState tls st" M w L] by auto
  have s: "set (sorted_list_of_set (touched M w L)) = touched M w L"
    by (simp add: touched_finite)
  have "SetRedYellowGreenState tls st \<in> set (cmds out) \<longleftrightarrow> SetRedYellowGreenState tls st \<in> set cs"
    unfolding c using 1 2 by simp
  also have "\<dots> \<longleftrightarrow> (tls \<in> touched M w L \<and>
          (\<exists>m. map_of M tls = Some m \<and>
             build_state (n_links m)
               (greens (resolve m (ems_green (ems_claims w)) (train_green (tick_train M w L)) (tick_crg M w L) tls))
               (force_red (resolve m (ems_green (ems_claims w)) (train_green (tick_train M w L)) (tick_crg M w L) tls)) = Inr st))"
    unfolding apply_all_state_cmd[OF a] s ..
  also have "\<dots> \<longleftrightarrow> (tls \<in> touched M w L \<and>
          (\<exists>m d. map_of M tls = Some m \<and> tick_decision M w L tls = Some d \<and>
             build_state (n_links m) (greens d) (force_red d) = Inr st))"
    by (auto simp: tick_decision_def)
  finally show ?thesis .
qed

text \<open>A completed pass sends one state to every touched intersection.\<close>
lemma tick_state_written:
  assumes "tick M w L = Inr out" "tls \<in> touched M w L"
  shows "\<exists>m d st. map_of M tls = Some m \<and> tick_decision M w L tls = Some d \<and>
           build_state (n_links m) (greens d) (force_red d) = Inr st \<and>
           (getTime w, event_type d, source d, tls, st) \<in> set (events out) \<and>
           SetRedYellowGreenState tls st \<in> set (cmds out) \<and>
           (\<forall>st'. SetRedYellowGreenState tls st' \<in> set (cmds out) \<longrightarrow> st' = st)"
proof -
  from tick_touched[OF assms] obtain m d st where
    m: "map_of M tls = Some m" and d: "tick_decision M w L tls = Some d" and
    b: "build_state (n_links m) (greens d) (force_red d) = Inr st" and
    ev: "(getTime w, event_type d, source d, tls, st) \<in> set (events out)"
    by blast
  have c: "SetRedYellowGreenState tls st \<in> set (cmds out)"
    unfolding tick_state_cmd[OF assms(1)] using assms(2) m d b by blast
  have u: "st' = st" if "SetRedYellowGreenState tls st' \<in> set (cmds out)" for st'
  proof -
    from that obtain m' d' where "map_of M tls = Some m'" "tick_decision M w L tls = Some d'"
      "build_state (n_links m') (greens d') (force_red d') = Inr st'"
      unfolding tick_state_cmd[OF assms(1)] by blast
    with m d b show ?thesis by simp
  qed
  from m d b ev c u show ?thesis by blast
qed

lemma released_iff: "released v cs \<longleftrightarrow> (\<exists>x. SetSpeed v x \<in> set cs)"
proof
  assume "released v cs"
  then obtain c where c: "c \<in> set cs" "(case c of SetSpeed u _ \<Rightarrow> u = v | _ \<Rightarrow> False)"
    by (auto simp: released_def list_ex_iff)
  from c(2) obtain x where "c = SetSpeed v x" by (cases c) auto
  with c(1) show "\<exists>x. SetSpeed v x \<in> set cs" by blast
next
  assume "\<exists>x. SetSpeed v x \<in> set cs"
  then show "released v cs" by (auto intro: released_mem)
qed

text \<open>The speed commands of a completed pass are those of step 2.\<close>
lemma tick_speed_cmd:
  assumes "tick M w L = Inr out"
  shows "SlowDown v x y \<in> set (cmds out) \<longleftrightarrow> SlowDown v x y \<in> set (train_cmds (tick_train M w L))"
    and "SetSpeed v x \<in> set (cmds out) \<longleftrightarrow> SetSpeed v x \<in> set (train_cmds (tick_train M w L))"
proof -
  from assms obtain evs cs where
    a: "apply_all M (getTime w) (ems_green (ems_claims w)) (train_green (tick_train M w L))
            (tick_crg M w L) (sorted_list_of_set (touched M w L)) = Inr (evs, cs)"
    and c: "cmds out = ems_cmds (ems_claims w) @ train_cmds (tick_train M w L) @ cs"
    by (auto simp: tick_unfold split: sum.splits)
  have 1: "SlowDown v x y \<notin> set (ems_cmds (ems_claims w))"
    using ems_claims_cmds[of "SlowDown v x y" w] by auto
  have 2: "SlowDown v x y \<notin> set cs"
    using apply_all_cmds_kind[OF a, of "SlowDown v x y"] by auto
  from 1 2 show "SlowDown v x y \<in> set (cmds out) \<longleftrightarrow>
      SlowDown v x y \<in> set (train_cmds (tick_train M w L))"
    unfolding c by simp
  have 3: "SetSpeed v x \<notin> set (ems_cmds (ems_claims w))"
    using ems_claims_cmds[of "SetSpeed v x" w] by auto
  have 4: "SetSpeed v x \<notin> set cs"
    using apply_all_cmds_kind[OF a, of "SetSpeed v x"] by auto
  from 3 4 show "SetSpeed v x \<in> set (cmds out) \<longleftrightarrow>
      SetSpeed v x \<in> set (train_cmds (tick_train M w L))"
    unfolding c by simp
qed

lemma tick_released:
  assumes "tick M w L = Inr out"
  shows "released v (cmds out) \<longleftrightarrow> released v (train_cmds (tick_train M w L))"
  unfolding released_iff tick_speed_cmd(2)[OF assms] ..

lemma x_meta_built: "build_tls_meta x_edge x_links [''X''] = Inr x_meta"
  by (simp add: analyze_tls_def x_edge_def x_links_def x_meta_def enumerate_eq_zip)

lemma w_block_ems:
  "ems_claims w_block =
     \<lparr>ems_green = [''X'' \<mapsto> {0}], blocked_tls = {''X''},
      ems_cmds = [SetLaneChangeMode ''amb'' 0, SetSpeedMode ''amb'' 0]\<rparr>"
  by (simp add: ems_claims_def ems_step_def w_block_def is_ems_def EMS_DIST_def add_link_def)

lemma w_block_ems_links: "ems_links w_block (getIDList w_block) ''X'' = {0}"
  using ems_claims_green[of w_block "''X''"] by (simp add: w_block_ems split: if_splits)

lemma w_block_train_fresh:
  "tick_train x_meta w_block Map.empty =
     \<lparr>train_near = {''X''}, train_green = Map.empty,
      train_hold_left = [(''X'', ''t1'') \<mapsto> 11],
      train_cmds = [SlowDown ''t1'' 6 3]\<rparr>"
  by (simp add: tick_train_def w_block_ems)
     (simp add: train_phase_def train_step_def w_block_def is_train_def x_meta_def
      TRAIN_WARN_DIST_def TRAIN_HOLD_MAX_def hold_get_def slow_target_def)

lemma w_block_train_spent:
  "tick_train x_meta w_block spent =
     \<lparr>train_near = {''X''}, train_green = [''X'' \<mapsto> {1}],
      train_hold_left = spent,
      train_cmds = [SetSpeed ''t1'' (- 1)]\<rparr>"
  by (simp add: tick_train_def w_block_ems)
     (simp add: train_phase_def train_step_def w_block_def is_train_def x_meta_def spent_def
      TRAIN_WARN_DIST_def TRAIN_HOLD_MAX_def hold_get_def slow_target_def add_link_def)

lemma w_block_crg: "tick_crg x_meta w_block L = Map.empty"
  by (rule ext) (simp add: tick_crg_def crossing_road_green_def w_block_ems x_meta_def)

lemma state_Gr: "build_state 2 {0} {1} = Inr ''Gr''"
  by code_simp

lemma state_Gr': "build_state (Suc (Suc 0)) {0} {Suc 0} = Inr ''Gr''"
  using state_Gr by (simp add: numeral_2_eq_2)

lemma w_block_tick_spent:
  "tick x_meta w_block spent =
     Inr \<lparr>events = [(1, ''ems_preempt'', ''ems'', ''X'', ''Gr'')],
          cmds = [SetLaneChangeMode ''amb'' 0, SetSpeedMode ''amb'' 0, SetSpeed ''t1'' (- 1),
                  SetRedYellowGreenState ''X'' ''Gr'', SetPhaseDuration ''X'' PULSE],
          hold_left = prune w_block spent\<rparr>"
  unfolding tick_unfold touched_def w_block_ems w_block_train_spent w_block_crg
  by (simp add: apply_tls_def resolve_def x_meta_def state_Gr w_block_def)

lemma w_idle_ems_links: "ems_links w_idle (getIDList w_idle) t = {}"
  by (simp add: ems_links_def ems_claim_def is_ems_def w_idle_def)

lemma w_idle_train_links: "train_links x_meta w_idle (getIDList w_idle) t = {}"
  by (simp add: train_links_def train_obs_def is_train_def w_idle_def)

lemma state_Gr_road: "build_state 2 {0} {} = Inr ''Gr''"
  by code_simp

lemma w_idle_ems:
  "ems_claims w_idle = \<lparr>ems_green = Map.empty, blocked_tls = {}, ems_cmds = []\<rparr>"
  by (simp add: ems_claims_def ems_step_def w_idle_def is_ems_def)

lemma w_idle_train:
  "tick_train x_meta w_idle L =
     \<lparr>train_near = {}, train_green = Map.empty, train_hold_left = L, train_cmds = []\<rparr>"
  by (simp add: tick_train_def train_phase_def train_step_def w_idle_def is_train_def)

lemma w_idle_crg: "tick_crg x_meta w_idle L = [''X'' \<mapsto> {0}]"
  unfolding tick_crg_def w_idle_ems w_idle_train
  by (rule ext) (simp add: crossing_road_green_def x_meta_def)

lemma w_idle_tick:
  "tick x_meta w_idle L =
     Inr \<lparr>events = [(2, ''road_keep_green'', ''controller'', ''X'', ''Gr'')],
          cmds = [SetRedYellowGreenState ''X'' ''Gr'', SetPhaseDuration ''X'' PULSE],
          hold_left = prune w_idle L\<rparr>"
  unfolding tick_unfold touched_def w_idle_ems w_idle_train w_idle_crg
  by (simp add: apply_tls_def resolve_def x_meta_def state_Gr_road w_idle_def)

text \<open>
  C10.  Every row that a pass of the loop writes to the event log carries one of the tags
  \<^verbatim>\<open>ems_preempt\<close>, \<^verbatim>\<open>train_request\<close>, \<^verbatim>\<open>road_keep_green\<close>: the loop runs over the union of
  the keys of the three dictionaries, so the last branch (\<^verbatim>\<open>other\<close>) is never taken.
\<close>
theorem event_tag_never_other:
  assumes "tick tls_meta w L = Inr out" "(t, tag, src, tls, st) \<in> set (events out)"
  shows "tag = ''ems_preempt'' \<or> tag = ''train_request'' \<or> tag = ''road_keep_green''"
proof -
  from assms(2) obtain tls' m st' d where
    t: "tls' \<in> touched tls_meta w L" and m: "map_of tls_meta tls' = Some m" and
    d: "tick_decision tls_meta w L tls' = Some d" and
    e: "(t, tag, src, tls, st) = (getTime w, event_type d, source d, tls', st')"
    unfolding tick_events[OF assms(1)] by blast
  from m d have "d = resolve m (ems_green (ems_claims w)) (train_green (tick_train tls_meta w L))
                     (tick_crg tls_meta w L) tls'"
    by (simp add: tick_decision_def)
  moreover from e have "tag = event_type d" by simp
  ultimately show ?thesis
    using resolve_tag[of tls' "ems_green (ems_claims w)" "train_green (tick_train tls_meta w L)"
        "tick_crg tls_meta w L" m] t
    by (simp add: touched_def)
qed

theorem event_tag_never_other_witness:
  "tick x_meta w_block spent =
     Inr \<lparr>events = [(1, ''ems_preempt'', ''ems'', ''X'', ''Gr'')],
          cmds = [SetLaneChangeMode ''amb'' 0, SetSpeedMode ''amb'' 0, SetSpeed ''t1'' (- 1),
                  SetRedYellowGreenState ''X'' ''Gr'', SetPhaseDuration ''X'' PULSE],
          hold_left = prune w_block spent\<rparr> \<and>
   (''ems_preempt'' = ''ems_preempt'' \<or> ''ems_preempt'' = ''train_request'' \<or>
    ''ems_preempt'' = ''road_keep_green'')"
  using event_tag_never_other[OF w_block_tick_spent, of 1 "''ems_preempt''" "''ems''" "''X''" "''Gr''"]
    w_block_tick_spent
  by simp



text \<open>
  C7.  A crossing without an EMS claim and without a train inside the warn distance gets
  the resolution \<^verbatim>\<open>road_keep_green\<close>: green set = the whole road group, forced-red set
  empty.  A completed pass applies it: it sends the crossing one state, built from these
  two sets, and no other, and logs it with the tag \<^verbatim>\<open>road_keep_green\<close>.  In that state
  exactly the road links are \<^verbatim>\<open>G\<close>; every other link, so every rail link, is \<^verbatim>\<open>r\<close>.
\<close>
theorem idle_crossing_road_green:
  assumes "build_tls_meta getEdgeID getControlledLinks ids = Inr tls_meta"
    "map_of tls_meta tls = Some m" "is_crossing m"
    "ems_links w (getIDList w) tls = {}"
    "train_links tls_meta w (getIDList w) tls = {}"
    "tick tls_meta w L = Inr out"
  shows "tick_decision tls_meta w L tls =
           Some \<lparr>greens = road_idxs m, force_red = {},
                 event_type = ''road_keep_green'', source = ''controller''\<rparr> \<and>
         (\<exists>st. build_state (n_links m) (road_idxs m) {} = Inr st \<and>
               SetRedYellowGreenState tls st \<in> set (cmds out) \<and>
               (\<forall>st'. SetRedYellowGreenState tls st' \<in> set (cmds out) \<longrightarrow> st' = st) \<and>
               (getTime w, ''road_keep_green'', ''controller'', tls, st) \<in> set (events out) \<and>
               length st = n_links m \<and>
               (\<forall>i<n_links m. st ! i = (if int i \<in> road_idxs m then CHR ''G'' else CHR ''r'')))"
proof -
  have ok: "meta_ok m" using assms(1,2) by (rule build_tls_meta_ok)
  have e: "ems_green (ems_claims w) tls = None"
    using assms(4) by (simp add: ems_claims_green)
  have c: "tick_crg tls_meta w L tls = Some (road_idxs m)"
    using assms(2-5) by (simp add: tick_crg_Some)
  have t: "train_green (tick_train tls_meta w L) tls = None"
    using c by (rule tick_crg_train_excl)
  have d: "tick_decision tls_meta w L tls =
           Some \<lparr>greens = road_idxs m, force_red = {},
                 event_type = ''road_keep_green'', source = ''controller''\<rparr>"
    using assms(2) e t c by (simp add: tick_decision_def resolve_road)
  from c have "tls \<in> touched tls_meta w L" by (auto simp: touched_def)
  from tick_state_written[OF assms(6) this] obtain m' d' st where
    m': "map_of tls_meta tls = Some m'" and d': "tick_decision tls_meta w L tls = Some d'" and
    b': "build_state (n_links m') (greens d') (force_red d') = Inr st" and
    ev': "(getTime w, event_type d', source d', tls, st) \<in> set (events out)" and
    cm: "SetRedYellowGreenState tls st \<in> set (cmds out)" and
    un: "\<forall>st'. SetRedYellowGreenState tls st' \<in> set (cmds out) \<longrightarrow> st' = st"
    by blast
  from m' assms(2) have mm: "m' = m" by simp
  from d' d have dd: "d' = \<lparr>greens = road_idxs m, force_red = {},
                 event_type = ''road_keep_green'', source = ''controller''\<rparr>"
    by simp
  from b' mm dd have b: "build_state (n_links m) (road_idxs m) {} = Inr st" by simp
  from ev' dd have
    ev: "(getTime w, ''road_keep_green'', ''controller'', tls, st) \<in> set (events out)"
    by simp
  have f: "finite (road_idxs m)" using ok by (simp add: meta_ok_finite)
  have nn: "\<forall>k\<in>road_idxs m. 0 \<le> k" using meta_ok_range[OF ok] by blast
  have "st ! i = (if int i \<in> road_idxs m then CHR ''G'' else CHR ''r'')" if "i < n_links m" for i
  proof (cases "int i \<in> road_idxs m")
    case True
    from build_state_green[OF b f _ True] show ?thesis using True by simp
  next
    case False
    from build_state_red[OF b f _ that False nn] show ?thesis using False by simp
  qed
  then have al: "\<forall>i<n_links m. st ! i = (if int i \<in> road_idxs m then CHR ''G'' else CHR ''r'')"
    by blast
  have len: "length st = n_links m" using b by (rule build_state_length)
  from d b cm un ev len al show ?thesis
    by (intro conjI exI[of _ st])
qed

theorem idle_crossing_road_green_witness:
  "build_tls_meta x_edge x_links [''X''] = Inr x_meta \<and>
   ems_links w_idle (getIDList w_idle) ''X'' = {} \<and>
   train_links x_meta w_idle (getIDList w_idle) ''X'' = {} \<and>
   tick x_meta w_idle Map.empty =
     Inr \<lparr>events = [(2, ''road_keep_green'', ''controller'', ''X'', ''Gr'')],
          cmds = [SetRedYellowGreenState ''X'' ''Gr'', SetPhaseDuration ''X'' PULSE],
          hold_left = prune w_idle Map.empty\<rparr> \<and>
   tick_decision x_meta w_idle Map.empty ''X'' =
     Some \<lparr>greens = {0}, force_red = {},
           event_type = ''road_keep_green'', source = ''controller''\<rparr>"
proof -
  have m: "map_of x_meta ''X'' =
      Some \<lparr>n_links = 2, rail_idxs = {1}, road_idxs = {0},
            inc_edge_to_link_idxs = [''road_ew'' \<mapsto> [0]], is_crossing = True\<rparr>"
    by (simp add: x_meta_def)
  from idle_crossing_road_green[OF x_meta_built m _ w_idle_ems_links w_idle_train_links w_idle_tick,
      of Map.empty]
  have d: "tick_decision x_meta w_idle Map.empty ''X'' =
     Some \<lparr>greens = {0}, force_red = {},
           event_type = ''road_keep_green'', source = ''controller''\<rparr>"
    by simp
  show ?thesis
    by (intro conjI x_meta_built w_idle_ems_links w_idle_train_links w_idle_tick d)
qed

lemma state_rr: "build_state 2 {1} {1} = Inr ''rr''"
  by code_simp

lemma w_rail_ems_tick:
  "tick x_meta w_rail_ems L =
     Inr \<lparr>events = [(6, ''ems_preempt'', ''ems'', ''X'', ''rr'')],
          cmds = [SetLaneChangeMode ''amb'' 0, SetSpeedMode ''amb'' 0,
                  SetRedYellowGreenState ''X'' ''rr'', SetPhaseDuration ''X'' PULSE],
          hold_left = prune w_rail_ems L\<rparr>"
proof -
  have e: "ems_claims w_rail_ems =
     \<lparr>ems_green = [''X'' \<mapsto> {1}], blocked_tls = {''X''},
      ems_cmds = [SetLaneChangeMode ''amb'' 0, SetSpeedMode ''amb'' 0]\<rparr>"
    by (simp add: ems_claims_def ems_step_def w_rail_ems_def is_ems_def EMS_DIST_def add_link_def)
  have t: "tick_train x_meta w_rail_ems L =
     \<lparr>train_near = {}, train_green = Map.empty, train_hold_left = L, train_cmds = []\<rparr>"
    by (simp add: tick_train_def train_phase_def train_step_def w_rail_ems_def is_train_def)
  have c: "tick_crg x_meta w_rail_ems L = Map.empty"
    unfolding tick_crg_def e t by (rule ext) (simp add: crossing_road_green_def x_meta_def)
  show ?thesis
    unfolding tick_unfold touched_def e t c
    by (simp add: apply_tls_def resolve_def x_meta_def state_rr w_rail_ems_def)
qed

text \<open>
  C2, the claim as stated fails.  An emergency vehicle is 50 m from crossing \<^verbatim>\<open>X\<close> and
  approaches it on link 1, which belongs to the rail group.  The pass puts link 1 into the
  green set of the decision and then forces the rail group red: the state sent to \<^verbatim>\<open>X\<close> is
  \<^verbatim>\<open>rr\<close>, the vehicle's link is not green.
\<close>
theorem ems_rail_link_red_counterexample:
  "build_tls_meta x_edge x_links [''X''] = Inr x_meta \<and>
   ''amb'' \<in> set (getIDList w_rail_ems) \<and>
   is_ems w_rail_ems ''amb'' \<and>
   getNextTLS w_rail_ems ''amb'' = [(''X'', 1, 50, CHR ''r'')] \<and> (50 :: real) \<le> EMS_DIST \<and>
   tick x_meta w_rail_ems Map.empty =
     Inr \<lparr>events = [(6, ''ems_preempt'', ''ems'', ''X'', ''rr'')],
          cmds = [SetLaneChangeMode ''amb'' 0, SetSpeedMode ''amb'' 0,
                  SetRedYellowGreenState ''X'' ''rr'', SetPhaseDuration ''X'' PULSE],
          hold_left = prune w_rail_ems Map.empty\<rparr> \<and>
   ''rr'' ! 1 = CHR ''r''"
  by (intro conjI x_meta_built w_rail_ems_tick)
     (simp_all add: w_rail_ems_def is_ems_def EMS_DIST_def)

text \<open>
  C2, as the code has it.  For an emergency vehicle whose next intersection is at most
  \<open>EMS_DIST\<close> away, the decision of the pass for that intersection is the EMS one: the green
  set is the set of the links of all emergency vehicles claiming it, so it contains the
  vehicle's link, and the forced-red set is the rail group.  A completed pass sends the
  intersection one state, built from these two sets, and no other, and logs it as
  \<^verbatim>\<open>ems_preempt\<close>.  In that state no rail link is \<^verbatim>\<open>G\<close>, and all claimed links of the road
  group are \<^verbatim>\<open>G\<close> together; the vehicle's own link is \<^verbatim>\<open>G\<close> if it is a road link and \<^verbatim>\<open>r\<close>
  if it is a rail link.
\<close>
theorem ems_claim_is_green:
  assumes "build_tls_meta getEdgeID getControlledLinks ids = Inr tls_meta"
    "v \<in> set (getIDList w)" "ems_claim w v tls l"
    "tick tls_meta w L = Inr out"
  shows "\<exists>m st. map_of tls_meta tls = Some m \<and>
           tick_decision tls_meta w L tls =
             Some \<lparr>greens = ems_links w (getIDList w) tls, force_red = rail_idxs m,
                   event_type = ''ems_preempt'', source = ''ems''\<rparr> \<and>
           l \<in> ems_links w (getIDList w) tls \<and>
           build_state (n_links m) (ems_links w (getIDList w) tls) (rail_idxs m) = Inr st \<and>
           SetRedYellowGreenState tls st \<in> set (cmds out) \<and>
           (\<forall>st'. SetRedYellowGreenState tls st' \<in> set (cmds out) \<longrightarrow> st' = st) \<and>
           (getTime w, ''ems_preempt'', ''ems'', tls, st) \<in> set (events out) \<and>
           (\<forall>j\<in>rail_idxs m. st ! nat j = CHR ''r'') \<and>
           (\<forall>k\<in>ems_links w (getIDList w) tls \<inter> road_idxs m. st ! nat k = CHR ''G'') \<and>
           (l \<in> road_idxs m \<longrightarrow> st ! nat l = CHR ''G'') \<and>
           (l \<in> rail_idxs m \<longrightarrow> st ! nat l = CHR ''r'')"
proof -
  have l: "l \<in> ems_links w (getIDList w) tls"
    using assms(2,3) by (auto simp: ems_links_def list_ex_iff)
  then have e: "ems_green (ems_claims w) tls = Some (ems_links w (getIDList w) tls)"
    by (auto simp: ems_claims_green)
  then have "tls \<in> touched tls_meta w L" by (auto simp: touched_def)
  from tick_state_written[OF assms(4) this] obtain m d st where
    m: "map_of tls_meta tls = Some m" and d: "tick_decision tls_meta w L tls = Some d" and
    b: "build_state (n_links m) (greens d) (force_red d) = Inr st" and
    ev: "(getTime w, event_type d, source d, tls, st) \<in> set (events out)" and
    cm: "SetRedYellowGreenState tls st \<in> set (cmds out)" and
    un: "\<forall>st'. SetRedYellowGreenState tls st' \<in> set (cmds out) \<longrightarrow> st' = st"
    by blast
  from m d e have d': "d = \<lparr>greens = ems_links w (getIDList w) tls, force_red = rail_idxs m,
                   event_type = ''ems_preempt'', source = ''ems''\<rparr>"
    by (simp add: tick_decision_def resolve_ems)
  have ok: "meta_ok m" using assms(1) m by (rule build_tls_meta_ok)
  have fr: "finite (rail_idxs m)" using ok by (simp add: meta_ok_finite)
  have fg: "finite (ems_links w (getIDList w) tls)" by (rule ems_links_finite)
  from b d' have b': "build_state (n_links m) (ems_links w (getIDList w) tls) (rail_idxs m) = Inr st"
    by simp
  have nn: "\<forall>j\<in>rail_idxs m. 0 \<le> j" using meta_ok_range[OF ok] by blast
  have red: "\<forall>j\<in>rail_idxs m. st ! nat j = CHR ''r''"
    using build_state_forced[OF b' fg fr] nn by blast
  have green: "\<forall>k\<in>ems_links w (getIDList w) tls \<inter> road_idxs m. st ! nat k = CHR ''G''"
  proof
    fix k assume k: "k \<in> ems_links w (getIDList w) tls \<inter> road_idxs m"
    then have "0 \<le> k" using meta_ok_range[OF ok, of k] by simp
    moreover from k have "k \<notin> rail_idxs m" using meta_ok_disj[OF ok, of k] by blast
    ultimately show "st ! nat k = CHR ''G''"
      using build_state_green[OF b' fg fr _ _ _ nn, of k] k by simp
  qed
  from green l have own: "l \<in> road_idxs m \<longrightarrow> st ! nat l = CHR ''G''" by blast
  from red have own': "l \<in> rail_idxs m \<longrightarrow> st ! nat l = CHR ''r''" by blast
  from d d' have d'': "tick_decision tls_meta w L tls =
             Some \<lparr>greens = ems_links w (getIDList w) tls, force_red = rail_idxs m,
                   event_type = ''ems_preempt'', source = ''ems''\<rparr>"
    by simp
  from ev d' have ev': "(getTime w, ''ems_preempt'', ''ems'', tls, st) \<in> set (events out)"
    by simp
  from m d'' l b' cm un ev' red green own own' show ?thesis by blast
qed

theorem ems_claim_is_green_witness:
  "build_tls_meta x_edge x_links [''X''] = Inr x_meta \<and>
   ''amb'' \<in> set (getIDList w_block) \<and> ems_claim w_block ''amb'' ''X'' 0 \<and>
   tick x_meta w_block spent =
     Inr \<lparr>events = [(1, ''ems_preempt'', ''ems'', ''X'', ''Gr'')],
          cmds = [SetLaneChangeMode ''amb'' 0, SetSpeedMode ''amb'' 0, SetSpeed ''t1'' (- 1),
                  SetRedYellowGreenState ''X'' ''Gr'', SetPhaseDuration ''X'' PULSE],
          hold_left = prune w_block spent\<rparr> \<and>
   tick_decision x_meta w_block spent ''X'' =
     Some \<lparr>greens = {0}, force_red = {1}, event_type = ''ems_preempt'', source = ''ems''\<rparr>"
proof -
  have a: "''amb'' \<in> set (getIDList w_block)" by (simp add: w_block_def)
  have c: "ems_claim w_block ''amb'' ''X'' 0"
    by (simp add: ems_claim_def is_ems_def w_block_def EMS_DIST_def)
  from ems_claim_is_green[OF x_meta_built a c w_block_tick_spent] obtain m where
    m: "map_of x_meta ''X'' = Some m" and
    d: "tick_decision x_meta w_block spent ''X'' =
             Some \<lparr>greens = ems_links w_block (getIDList w_block) ''X'', force_red = rail_idxs m,
                   event_type = ''ems_preempt'', source = ''ems''\<rparr>"
    by blast
  from m have "rail_idxs m = {1}" by (auto simp: x_meta_def)
  with d have d': "tick_decision x_meta w_block spent ''X'' =
     Some \<lparr>greens = {0}, force_red = {1}, event_type = ''ems_preempt'', source = ''ems''\<rparr>"
    by (simp add: w_block_ems_links)
  show ?thesis
    by (intro conjI x_meta_built a c w_block_tick_spent d')
qed

lemma tick_train_slowed:
  assumes "slowed v (train_cmds (tick_train M w L))"
  shows "v \<in> set (getIDList w) \<and>
         (\<exists>tls l. train_obs M w v tls l \<and> tls \<in> blocked_tls (ems_claims w) \<and>
            0 < hold_get L (tls, v) \<and>
            hold_get (train_hold_left (tick_train M w L)) (tls, v) < hold_get L (tls, v))"
  using fold_train_slowed[of v M w "blocked_tls (ems_claims w)" "getIDList w"
      "\<lparr>train_near = {}, train_green = Map.empty, train_hold_left = L, train_cmds = []\<rparr>"] assms
  by (simp add: tick_train_def train_phase_def)

lemma held_budget:
  assumes "held M w L tls v"
  shows "v \<in> set (getIDList w)" "getNextTLS w v \<noteq> []" "0 < hold_get L (tls, v)"
    "hold_get (train_hold_left (tick_train M w L)) (tls, v) < hold_get L (tls, v)"
proof -
  from assms have n: "case getNextTLS w v of [] \<Rightarrow> False | (t, _) # _ \<Rightarrow> t = tls"
    and s: "slowed v (train_cmds (tick_train M w L))"
    by (simp_all add: held_def)
  from n show ne: "getNextTLS w v \<noteq> []" by auto
  from tick_train_slowed[OF s] obtain t l where
    v: "v \<in> set (getIDList w)" and o: "train_obs M w v t l" and
    p: "0 < hold_get L (t, v)" and
    d: "hold_get (train_hold_left (tick_train M w L)) (t, v) < hold_get L (t, v)"
    by blast
  from o n have "t = tls" by (cases "getNextTLS w v") (auto simp: train_obs_def)
  with v p d show "v \<in> set (getIDList w)" "0 < hold_get L (tls, v)"
    "hold_get (train_hold_left (tick_train M w L)) (tls, v) < hold_get L (tls, v)"
    by simp_all
qed

lemma tick_train_keep:
  "\<not> 0 < hold_get L (tls, v) \<Longrightarrow> train_hold_left (tick_train M w L) (tls, v) = L (tls, v)"
  using fold_train_keep[of "\<lparr>train_near = {}, train_green = Map.empty, train_hold_left = L, train_cmds = []\<rparr>"
      tls v M w "blocked_tls (ems_claims w)" "getIDList w"]
  by (simp add: tick_train_def train_phase_def)

text \<open>A train inside the warn distance of a blocked crossing whose budget is used up.\<close>
lemma tick_train_release:
  assumes "v \<in> set (getIDList w)" "train_obs M w v tls l" "tls \<in> blocked_tls (ems_claims w)"
    "\<not> 0 < hold_get L (tls, v)"
  shows "SetSpeed v (- 1) \<in> set (train_cmds (tick_train M w L))"
    "l \<in> base (train_green (tick_train M w L)) tls"
proof -
  let ?B = "blocked_tls (ems_claims w)"
  let ?a = "\<lparr>train_near = {}, train_green = Map.empty, train_hold_left = L, train_cmds = []\<rparr>"
  from assms(1) obtain pre post where sp: "getIDList w = pre @ v # post"
    by (auto dest: split_list)
  let ?a1 = "fold (train_step M w ?B) pre ?a"
  have k: "train_hold_left ?a1 (tls, v) = L (tls, v)"
    using fold_train_keep[of ?a tls v M w ?B pre] assms(4) by simp
  then have "\<not> 0 < hold_get (train_hold_left ?a1) (tls, v)"
    using assms(4) by (simp add: hold_get_def)
  then have st: "train_step M w ?B v ?a1 =
         ?a1\<lparr>train_near := insert tls (train_near ?a1),
           train_cmds := train_cmds ?a1 @ [SetSpeed v (- 1)],
           train_green := add_link (train_green ?a1) tls l\<rparr>"
    using train_step_release[OF assms(2), of ?B ?a1] by blast
  have t: "tick_train M w L = fold (train_step M w ?B) post (train_step M w ?B v ?a1)"
    by (simp add: tick_train_def train_phase_def sp)
  have "SetSpeed v (- 1) \<in> set (train_cmds (train_step M w ?B v ?a1))"
    by (simp add: st)
  then show "SetSpeed v (- 1) \<in> set (train_cmds (tick_train M w L))"
    unfolding t by (rule fold_train_cmds_mono)
  have "l \<in> base (train_green (train_step M w ?B v ?a1)) tls"
    by (simp add: st base_add_link)
  then show "l \<in> base (train_green (tick_train M w L)) tls"
    unfolding t by (rule fold_train_green_mono)
qed

lemma base_mem: "l \<in> base d t \<longleftrightarrow> (\<exists>S. d t = Some S \<and> l \<in> S)"
  by (cases "d t") (simp_all add: base_def)

subsection \<open>Cleaning the hold budgets\<close>

lemma w_moved_tick:
  "tick x_meta w_moved L =
     Inr \<lparr>events = [(3, ''road_keep_green'', ''controller'', ''X'', ''Gr'')],
          cmds = [SetRedYellowGreenState ''X'' ''Gr'', SetPhaseDuration ''X'' PULSE],
          hold_left = prune w_moved L\<rparr>"
proof -
  have e: "ems_claims w_moved = \<lparr>ems_green = Map.empty, blocked_tls = {}, ems_cmds = []\<rparr>"
    by (simp add: ems_claims_def ems_step_def w_moved_def is_ems_def)
  have t: "tick_train x_meta w_moved L =
     \<lparr>train_near = {}, train_green = Map.empty, train_hold_left = L, train_cmds = []\<rparr>"
    by (simp add: tick_train_def train_phase_def train_step_def w_moved_def is_train_def x_meta_def)
  have c: "tick_crg x_meta w_moved L = [''X'' \<mapsto> {0}]"
    unfolding tick_crg_def e t by (rule ext) (simp add: crossing_road_green_def x_meta_def)
  show ?thesis
    unfolding tick_unfold touched_def e t c
    by (simp add: apply_tls_def resolve_def x_meta_def state_Gr_road w_moved_def)
qed

text \<open>
  C8, the code at the failing input.  Train \<^verbatim>\<open>t1\<close> was held at crossing \<^verbatim>\<open>X\<close>, so the ledger
  has the entry \<^verbatim>\<open>(X, t1)\<close> with 11 left.  In the next pass the train reports \<^verbatim>\<open>Z\<close> as its
  next intersection.  The pass completes and the entry for \<^verbatim>\<open>(X, t1)\<close> is still there: the
  cleaning only asks whether the train has any next intersection.
\<close>
theorem prune_keeps_stale_entry:
  "getNextTLS w_moved ''t1'' = [(''Z'', 0, 40, CHR ''r'')] \<and>
   tick x_meta w_moved [(''X'', ''t1'') \<mapsto> 11] =
     Inr \<lparr>events = [(3, ''road_keep_green'', ''controller'', ''X'', ''Gr'')],
          cmds = [SetRedYellowGreenState ''X'' ''Gr'', SetPhaseDuration ''X'' PULSE],
          hold_left = prune w_moved [(''X'', ''t1'') \<mapsto> 11]\<rparr> \<and>
   prune w_moved [(''X'', ''t1'') \<mapsto> 11] (''X'', ''t1'') = Some 11"
  by (simp add: w_moved_tick) (simp add: w_moved_def prune_def)

text \<open>
  C6, the claim as stated fails.  Train \<^verbatim>\<open>t1\<close> is 100 m from the blocked crossing \<^verbatim>\<open>X\<close> and
  its budget is 0.  The pass releases the train, but the state written for \<^verbatim>\<open>X\<close> is \<^verbatim>\<open>Gr\<close>:
  the train's link 1 is red; and the ledger entry is still there after the pass.
\<close>
theorem release_keeps_entry_counterexample:
  "spent (''X'', ''t1'') = Some 0 \<and>
   tick x_meta w_block spent =
     Inr \<lparr>events = [(1, ''ems_preempt'', ''ems'', ''X'', ''Gr'')],
          cmds = [SetLaneChangeMode ''amb'' 0, SetSpeedMode ''amb'' 0, SetSpeed ''t1'' (- 1),
                  SetRedYellowGreenState ''X'' ''Gr'', SetPhaseDuration ''X'' PULSE],
          hold_left = prune w_block spent\<rparr> \<and>
   prune w_block spent (''X'', ''t1'') = Some 0"
  by (simp add: w_block_tick_spent) (simp add: w_block_def prune_def spent_def)

subsection \<open>Road and rail are never green together\<close>









subsection \<open>Bounded holds\<close>

lemma ledger_ok_empty: "ledger_ok Map.empty"
  by (simp add: ledger_ok_def hold_get_def TRAIN_HOLD_MAX_def)

lemma hold_get_prune:
  "hold_get (prune w L) (tls, v) =
     (if v \<in> set (getIDList w) \<and> getNextTLS w v \<noteq> [] then hold_get L (tls, v) else TRAIN_HOLD_MAX)"
  by (simp add: hold_get_def prune_def)

lemma prune_ok: "ledger_ok L \<Longrightarrow> ledger_ok (prune w L)"
proof -
  assume ok: "ledger_ok L"
  show ?thesis unfolding ledger_ok_def
  proof
    fix key :: "tls_id \<times> veh_id"
    obtain t v where k: "key = (t, v)" by (cases key)
    from ok have "0 \<le> hold_get L (t, v) \<and> hold_get L (t, v) \<le> TRAIN_HOLD_MAX"
      unfolding ledger_ok_def by blast
    then show "0 \<le> hold_get (prune w L) key \<and> hold_get (prune w L) key \<le> TRAIN_HOLD_MAX"
      unfolding k hold_get_prune by (simp add: TRAIN_HOLD_MAX_def)
  qed
qed

lemma tick_ledger_ok:
  assumes "tick M w L = Inr out" "ledger_ok L"
  shows "ledger_ok (hold_left out)"
proof -
  have "ledger_ok (train_hold_left (tick_train M w L))"
    unfolding tick_train_def train_phase_def
    by (rule fold_train_ledger_ok) (simp add: assms(2))
  then show ?thesis unfolding tick_hold_left[OF assms(1)] by (rule prune_ok)
qed

lemma run_ticks_ledger_ok:
  "run_ticks M ws L = Inr L' \<Longrightarrow> ledger_ok L \<Longrightarrow> ledger_ok L'"
proof (induction ws arbitrary: L)
  case Nil
  then show ?case by simp
next
  case (Cons w ws)
  from Cons.prems(1) obtain out where t: "tick M w L = Inr out"
    and r: "run_ticks M ws (hold_left out) = Inr L'"
    by (auto split: sum.splits)
  from Cons.IH[OF r tick_ledger_ok[OF t Cons.prems(2)]] show ?case .
qed

lemma hold_streak_budget:
  "ledger_ok L \<Longrightarrow> int (hold_streak M tls v ws L) \<le> hold_get L (tls, v)"
proof (induction ws arbitrary: L)
  case Nil
  then show ?case by (simp add: ledger_ok_def)
next
  case (Cons w ws)
  show ?case
  proof (cases "held M w L tls v")
    case False
    with Cons.prems show ?thesis by (simp add: ledger_ok_def)
  next
    case True
    note h = held_budget[OF True]
    show ?thesis
    proof (cases "tick M w L")
      case (Inl e)
      with True h(3) show ?thesis by simp
    next
      case (Inr out)
      have ok': "ledger_ok (hold_left out)" using Inr Cons.prems by (rule tick_ledger_ok)
      have "hold_get (hold_left out) (tls, v) = hold_get (train_hold_left (tick_train M w L)) (tls, v)"
        unfolding tick_hold_left[OF Inr] hold_get_prune using h(1,2) by simp
      with h(4) have "hold_get (hold_left out) (tls, v) < hold_get L (tls, v)" by simp
      with Cons.IH[OF ok'] True Inr show ?thesis by simp
    qed
  qed
qed

text \<open>
  C3.  Start the loop with an empty ledger and let it run any number of passes.  From then
  on, the number of consecutive passes that issue a slow-down to a train for an
  intersection never exceeds \<open>TRAIN_HOLD_MAX\<close> = 12: every such pass lowers the pair's
  budget by one, the budget is at most 12, and with no budget left the release branch is
  taken.
\<close>
theorem hold_streak_bounded:
  assumes "run_ticks tls_meta past Map.empty = Inr L"
  shows "int (hold_streak tls_meta tls v ws L) \<le> TRAIN_HOLD_MAX"
proof -
  have ok: "ledger_ok L" using assms ledger_ok_empty by (rule run_ticks_ledger_ok)
  have "int (hold_streak tls_meta tls v ws L) \<le> hold_get L (tls, v)"
    using ok by (rule hold_streak_budget)
  also have "\<dots> \<le> TRAIN_HOLD_MAX" using ok unfolding ledger_ok_def by blast
  finally show ?thesis .
qed

subsection \<open>Thirteen passes at a blocked crossing\<close>

lemma prune_w_block: "prune w_block (budget b) = budget b"
proof (rule ext)
  fix key :: "tls_id \<times> veh_id"
  obtain t v where k: "key = (t, v)" by (cases key)
  show "prune w_block (budget b) key = budget b key"
  proof (cases "key = (''X'', ''t1'')")
    case True
    then show ?thesis by (simp add: prune_def budget_def w_block_def)
  next
    case False
    then show ?thesis unfolding k by (auto simp: prune_def budget_def)
  qed
qed

lemma w_block_train_hold:
  assumes "0 < b"
  shows "tick_train x_meta w_block (budget b) =
     \<lparr>train_near = {''X''}, train_green = Map.empty,
      train_hold_left = budget (b - 1),
      train_cmds = [SlowDown ''t1'' 6 3]\<rparr>"
  unfolding tick_train_def w_block_ems using assms
  by (simp add: train_phase_def train_step_def w_block_def is_train_def x_meta_def budget_def
      TRAIN_WARN_DIST_def hold_get_def slow_target_def)

lemma w_block_train_fresh':
  "tick_train x_meta w_block Map.empty =
     \<lparr>train_near = {''X''}, train_green = Map.empty,
      train_hold_left = budget 11,
      train_cmds = [SlowDown ''t1'' 6 3]\<rparr>"
  by (simp add: w_block_train_fresh budget_def)

lemma w_block_tick_hold:
  assumes "0 < b"
  shows "tick x_meta w_block (budget b) =
     Inr \<lparr>events = [(1, ''ems_preempt'', ''ems'', ''X'', ''Gr'')],
          cmds = [SetLaneChangeMode ''amb'' 0, SetSpeedMode ''amb'' 0, SlowDown ''t1'' 6 3,
                  SetRedYellowGreenState ''X'' ''Gr'', SetPhaseDuration ''X'' PULSE],
          hold_left = budget (b - 1)\<rparr>"
  unfolding tick_unfold touched_def w_block_ems w_block_train_hold[OF assms] w_block_crg
  by (simp add: apply_tls_def resolve_def x_meta_def state_Gr w_block_def[symmetric] prune_w_block)
     (simp add: w_block_def)

lemma w_block_tick_fresh:
  "tick x_meta w_block Map.empty =
     Inr \<lparr>events = [(1, ''ems_preempt'', ''ems'', ''X'', ''Gr'')],
          cmds = [SetLaneChangeMode ''amb'' 0, SetSpeedMode ''amb'' 0, SlowDown ''t1'' 6 3,
                  SetRedYellowGreenState ''X'' ''Gr'', SetPhaseDuration ''X'' PULSE],
          hold_left = budget 11\<rparr>"
  unfolding tick_unfold touched_def w_block_ems w_block_train_fresh' w_block_crg
  by (simp add: apply_tls_def resolve_def x_meta_def state_Gr w_block_def[symmetric] prune_w_block)
     (simp add: w_block_def)

lemma held_w_block_hold: "0 < b \<Longrightarrow> held x_meta w_block (budget b) ''X'' ''t1''"
  unfolding held_def w_block_train_hold by (simp add: w_block_def)

lemma held_w_block_fresh: "held x_meta w_block Map.empty ''X'' ''t1''"
  unfolding held_def w_block_train_fresh' by (simp add: w_block_def)

lemma spent_budget: "spent = budget 0"
  by (simp add: spent_def budget_def)

lemma not_held_w_block_spent: "\<not> held x_meta w_block (budget 0) ''X'' ''t1''"
  unfolding held_def spent_budget[symmetric] w_block_train_spent by simp

lemma run_twelve: "run_ticks x_meta (replicate 12 w_block) Map.empty = Inr spent"
  by (simp add: eval_nat_numeral w_block_tick_fresh w_block_tick_hold spent_budget)

lemma streak_thirteen:
  "hold_streak x_meta ''X'' ''t1'' (replicate 13 w_block) Map.empty = 12"
  by (simp add: eval_nat_numeral w_block_tick_fresh w_block_tick_hold
      held_w_block_fresh held_w_block_hold not_held_w_block_spent)

text \<open>
  C3, an instance.  Ambulance and train stay where they are for 13 passes: the train is
  held in the first 12 of them, which is the bound.
\<close>
theorem hold_streak_bounded_witness:
  "run_ticks x_meta [] Map.empty = Inr Map.empty \<and>
   hold_streak x_meta ''X'' ''t1'' (replicate 13 w_block) Map.empty = 12 \<and>
   (12 :: int) \<le> TRAIN_HOLD_MAX"
  using hold_streak_bounded[of x_meta "[]" Map.empty "''X''" "''t1''" "replicate 13 w_block"]
    streak_thirteen
  by simp

subsection \<open>Holding and releasing a train at a blocked crossing\<close>

lemma tick_train_hold:
  assumes "distinct (getIDList w)" "v \<in> set (getIDList w)" "train_obs M w v tls l"
    "tls \<in> blocked_tls (ems_claims w)" "0 < hold_get L (tls, v)"
  shows "train_hold_left (tick_train M w L) (tls, v) = Some (hold_get L (tls, v) - 1)"
    "SlowDown v (slow_target (next_dist w v)) 3 \<in> set (train_cmds (tick_train M w L))"
    "\<not> released v (train_cmds (tick_train M w L))"
proof -
  let ?B = "blocked_tls (ems_claims w)"
  let ?a = "\<lparr>train_near = {}, train_green = Map.empty, train_hold_left = L, train_cmds = []\<rparr>"
  from assms(2) obtain pre post where sp: "getIDList w = pre @ v # post"
    by (auto dest: split_list)
  with assms(1) have np: "v \<notin> set pre" and nq: "v \<notin> set post" by auto
  let ?a1 = "fold (train_step M w ?B) pre ?a"
  let ?a2 = "train_step M w ?B v ?a1"
  have k: "train_hold_left ?a1 (tls, v) = L (tls, v)"
    using fold_train_ledger_other[OF np, of M w ?B ?a tls] by simp
  then have hg: "hold_get (train_hold_left ?a1) (tls, v) = hold_get L (tls, v)"
    by (simp add: hold_get_def)
  have r1: "\<not> released v (train_cmds ?a1)"
    using fold_train_released_other[OF np, of M w ?B ?a] by simp
  have st: "?a2 =
         ?a1\<lparr>train_near := insert tls (train_near ?a1),
           train_cmds := train_cmds ?a1 @ [SlowDown v (slow_target (next_dist w v)) 3],
           train_hold_left := (train_hold_left ?a1)((tls, v) \<mapsto> hold_get (train_hold_left ?a1) (tls, v) - 1)\<rparr>"
    using train_step_hold[OF assms(3,4), of ?a1] assms(5) hg by simp
  have t: "tick_train M w L = fold (train_step M w ?B) post ?a2"
    by (simp add: tick_train_def train_phase_def sp)
  have "train_hold_left ?a2 (tls, v) = Some (hold_get L (tls, v) - 1)"
    by (simp add: st hg)
  then show "train_hold_left (tick_train M w L) (tls, v) = Some (hold_get L (tls, v) - 1)"
    unfolding t using fold_train_ledger_other[OF nq, of M w ?B ?a2 tls] by simp
  have "SlowDown v (slow_target (next_dist w v)) 3 \<in> set (train_cmds ?a2)"
    by (simp add: st)
  then show "SlowDown v (slow_target (next_dist w v)) 3 \<in> set (train_cmds (tick_train M w L))"
    unfolding t by (rule fold_train_cmds_mono)
  have "\<not> released v (train_cmds ?a2)"
    using r1 by (simp add: st released_append)
  then show "\<not> released v (train_cmds (tick_train M w L))"
    unfolding t using fold_train_released_other[OF nq, of M w ?B ?a2] by simp
qed

lemma tick_train_green_from:
  assumes "train_green (tick_train M w L) t = Some S" "l \<in> S"
  shows "\<exists>v\<in>set (getIDList w). train_obs M w v t l \<and> released v (train_cmds (tick_train M w L))"
proof -
  let ?a = "\<lparr>train_near = {}, train_green = Map.empty, train_hold_left = L, train_cmds = []\<rparr>"
  from assms(1) have f: "train_green (fold (train_step M w (blocked_tls (ems_claims w))) (getIDList w) ?a) t = Some S"
    by (simp add: tick_train_def train_phase_def)
  from fold_train_green[OF f assms(2)] show ?thesis
    by (auto simp: base_def tick_train_def train_phase_def intro: released_mem)
qed

lemma near_blocked_step:
  assumes "near_blocked M w tls v l" "tick M w L = Inr out" "0 \<le> hold_get L (tls, v)"
  shows "hold_get (hold_left out) (tls, v) = max 0 (hold_get L (tls, v) - 1)"
proof -
  from assms(1) have d: "distinct (getIDList w)" and v: "v \<in> set (getIDList w)"
    and o: "train_obs M w v tls l" and e: "ems_links w (getIDList w) tls \<noteq> {}"
    by (simp_all add: near_blocked_def)
  from e have bl: "tls \<in> blocked_tls (ems_claims w)" by (simp add: ems_claims_blocked ems_dom)
  from o have ne: "getNextTLS w v \<noteq> []" by (auto simp: train_obs_def)
  have p: "hold_get (hold_left out) (tls, v) = hold_get (train_hold_left (tick_train M w L)) (tls, v)"
    unfolding tick_hold_left[OF assms(2)] hold_get_prune using v ne by simp
  show ?thesis
  proof (cases "0 < hold_get L (tls, v)")
    case True
    from tick_train_hold(1)[OF d v o bl True] p True show ?thesis by (simp add: hold_get_def)
  next
    case False
    from tick_train_keep[OF False, of M w] p False assms(3) show ?thesis
      by (simp add: hold_get_def)
  qed
qed

lemma run_ticks_snoc:
  "run_ticks M (xs @ [x]) L = Inr L' \<longleftrightarrow>
     (\<exists>Lx out. run_ticks M xs L = Inr Lx \<and> tick M x Lx = Inr out \<and> L' = hold_left out)"
  by (induction xs arbitrary: L) (auto split: sum.splits)

lemma near_blocked_budget:
  assumes "\<forall>w\<in>set ws. near_blocked M w tls v l" "hold_get L (tls, v) = TRAIN_HOLD_MAX"
  shows "k \<le> length ws \<Longrightarrow> run_ticks M (take k ws) L = Inr Lk \<Longrightarrow>
         hold_get Lk (tls, v) = max 0 (TRAIN_HOLD_MAX - int k)"
proof (induction k arbitrary: Lk)
  case 0
  then show ?case using assms(2) by (simp add: TRAIN_HOLD_MAX_def)
next
  case (Suc k)
  from Suc.prems(1) have kl: "k < length ws" by simp
  then have tk: "take (Suc k) ws = take k ws @ [ws ! k]" by (rule take_Suc_conv_app_nth)
  from Suc.prems(2) obtain Lx out where
    r: "run_ticks M (take k ws) L = Inr Lx" and t: "tick M (ws ! k) Lx = Inr out" and
    l': "Lk = hold_left out"
    unfolding tk run_ticks_snoc by blast
  from Suc.IH[OF _ r] kl have b: "hold_get Lx (tls, v) = max 0 (TRAIN_HOLD_MAX - int k)" by simp
  from kl assms(1) have nb: "near_blocked M (ws ! k) tls v l" by simp
  from near_blocked_step[OF nb t] b l' show ?case by (simp add: max_def)
qed

text \<open>
  C5, the claim as stated fails.  An ambulance is 50 m from crossing \<^verbatim>\<open>X\<close> on link 0 and
  train \<^verbatim>\<open>t1\<close> 100 m from it on rail link 1, for 13 passes, starting with an empty ledger.
  Twelve passes use the budget up.  The 13th pass releases the train and puts link 1 into
  \<^verbatim>\<open>train_green\<close>, but the state it writes for \<^verbatim>\<open>X\<close> is \<^verbatim>\<open>Gr\<close>: link 1 is red, because the
  EMS claim still decides the state.
\<close>
theorem released_link_stays_red_counterexample:
  "run_ticks x_meta (replicate 12 w_block) Map.empty = Inr spent \<and>
   tick x_meta w_block spent =
     Inr \<lparr>events = [(1, ''ems_preempt'', ''ems'', ''X'', ''Gr'')],
          cmds = [SetLaneChangeMode ''amb'' 0, SetSpeedMode ''amb'' 0, SetSpeed ''t1'' (- 1),
                  SetRedYellowGreenState ''X'' ''Gr'', SetPhaseDuration ''X'' PULSE],
          hold_left = prune w_block spent\<rparr> \<and>
   train_green (tick_train x_meta w_block spent) ''X'' = Some {1} \<and>
   ''Gr'' ! 1 = CHR ''r''"
  by (intro conjI run_twelve w_block_tick_spent) (simp_all add: w_block_train_spent)

lemma w_near_ems:
  "ems_claims (w_near d) =
     \<lparr>ems_green = [''X'' \<mapsto> {0}], blocked_tls = {''X''},
      ems_cmds = [SetLaneChangeMode ''amb'' 0, SetSpeedMode ''amb'' 0]\<rparr>"
  by (simp add: ems_claims_def ems_step_def w_near_def is_ems_def EMS_DIST_def add_link_def)

lemma w_near_ems_links: "ems_links (w_near d) (getIDList (w_near d)) ''X'' = {0}"
  using ems_claims_green[of "w_near d" "''X''"] by (simp add: w_near_ems split: if_splits)

lemma w_near_train_fresh:
  assumes "d < 180"
  shows "tick_train x_meta (w_near d) Map.empty =
     \<lparr>train_near = {''X''}, train_green = Map.empty,
      train_hold_left = budget 11,
      train_cmds = [SlowDown ''t1'' (slow_target d) 3]\<rparr>"
  unfolding tick_train_def w_near_ems using assms
  by (simp add: train_phase_def train_step_def w_near_def is_train_def x_meta_def budget_def
      TRAIN_WARN_DIST_def TRAIN_HOLD_MAX_def hold_get_def)

lemma w_near_crg: "tick_crg x_meta (w_near d) L = Map.empty"
  by (rule ext) (simp add: tick_crg_def crossing_road_green_def w_near_ems x_meta_def)

lemma prune_w_near: "prune (w_near d) (budget b) = budget b"
proof (rule ext)
  fix key :: "tls_id \<times> veh_id"
  obtain t v where k: "key = (t, v)" by (cases key)
  show "prune (w_near d) (budget b) key = budget b key"
  proof (cases "key = (''X'', ''t1'')")
    case True
    then show ?thesis by (simp add: prune_def budget_def w_near_def)
  next
    case False
    then show ?thesis unfolding k by (auto simp: prune_def budget_def)
  qed
qed

lemma w_near_tick_fresh:
  assumes "d < 180"
  shows "tick x_meta (w_near d) Map.empty =
     Inr \<lparr>events = [(1, ''ems_preempt'', ''ems'', ''X'', ''Gr'')],
          cmds = [SetLaneChangeMode ''amb'' 0, SetSpeedMode ''amb'' 0,
                  SlowDown ''t1'' (slow_target d) 3,
                  SetRedYellowGreenState ''X'' ''Gr'', SetPhaseDuration ''X'' PULSE],
          hold_left = budget 11\<rparr>"
  unfolding tick_unfold touched_def w_near_ems w_near_train_fresh[OF assms] w_near_crg
  by (simp add: apply_tls_def resolve_def x_meta_def state_Gr prune_w_near)
     (simp add: w_near_def)

lemma w_near_blocked:
  "d < 180 \<Longrightarrow> near_blocked x_meta (w_near d) ''X'' ''t1'' 1"
  unfolding near_blocked_def w_near_ems_links
  by (simp add: train_obs_def is_train_def w_near_def TRAIN_WARN_DIST_def x_meta_def)

lemma w_block_blocked: "near_blocked x_meta w_block ''X'' ''t1'' 1"
  unfolding near_blocked_def w_block_ems_links
  by (simp add: train_obs_def is_train_def w_block_def TRAIN_WARN_DIST_def x_meta_def)

text \<open>
  C5, as the code has it.  A train stays inside the warn distance of an EMS-blocked
  crossing, and its budget starts at 12.  Before pass number \<open>k + 1\<close> the budget is
  \<open>12 - k\<close> (0 from the 13th pass on).  In each of the first 12 passes the engine issues a
  slow-down whose target speed is given by the three distance bands (below 25 m: 0.1,
  below 70 m: 3, else 6), lowers the budget by one and does not release the train; any link
  in \<^verbatim>\<open>train_green\<close> for the crossing then comes from another train.  From the 13th pass on
  it sets the train free-running, puts its link into \<^verbatim>\<open>train_green\<close> and leaves the budget
  at 0.  In every one of these passes the decision for the crossing is the EMS one, green
  set = the EMS links and the whole rail group forced red, and the one state sent to the
  crossing is built from it: every rail link is \<^verbatim>\<open>r\<close>, every claimed road link is \<^verbatim>\<open>G\<close>.
  So the link of a released train is red whenever it belongs to the rail group.
\<close>
theorem hold_twelve_then_release:
  assumes "build_tls_meta getEdgeID getControlledLinks ids = Inr tls_meta"
    "\<forall>w\<in>set ws. near_blocked tls_meta w tls v l"
    "hold_get L (tls, v) = TRAIN_HOLD_MAX"
    "k < length ws" "run_ticks tls_meta (take k ws) L = Inr Lk"
    "tick tls_meta (ws ! k) Lk = Inr out"
  shows "hold_get Lk (tls, v) = max 0 (TRAIN_HOLD_MAX - int k) \<and>
    (k < 12 \<longrightarrow>
       SlowDown v (if next_dist (ws ! k) v < 25 then 0.1
                   else if next_dist (ws ! k) v < 70 then 3 else 6) 3 \<in> set (cmds out) \<and>
       \<not> released v (cmds out) \<and>
       hold_left out (tls, v) = Some (TRAIN_HOLD_MAX - int k - 1) \<and>
       (\<forall>S l'. train_green (tick_train tls_meta (ws ! k) Lk) tls = Some S \<and> l' \<in> S \<longrightarrow>
          (\<exists>u\<in>set (getIDList (ws ! k)). u \<noteq> v \<and> train_obs tls_meta (ws ! k) u tls l'))) \<and>
    (12 \<le> k \<longrightarrow>
       SetSpeed v (- 1) \<in> set (cmds out) \<and>
       \<not> slowed v (cmds out) \<and>
       (\<exists>S. train_green (tick_train tls_meta (ws ! k) Lk) tls = Some S \<and> l \<in> S) \<and>
       hold_left out (tls, v) = Some 0) \<and>
    (\<exists>m st. map_of tls_meta tls = Some m \<and>
         tick_decision tls_meta (ws ! k) Lk tls =
           Some \<lparr>greens = ems_links (ws ! k) (getIDList (ws ! k)) tls, force_red = rail_idxs m,
                 event_type = ''ems_preempt'', source = ''ems''\<rparr> \<and>
         build_state (n_links m) (ems_links (ws ! k) (getIDList (ws ! k)) tls) (rail_idxs m) = Inr st \<and>
         SetRedYellowGreenState tls st \<in> set (cmds out) \<and>
         (\<forall>st'. SetRedYellowGreenState tls st' \<in> set (cmds out) \<longrightarrow> st' = st) \<and>
         (\<forall>j\<in>rail_idxs m. st ! nat j = CHR ''r'') \<and>
         (\<forall>i\<in>ems_links (ws ! k) (getIDList (ws ! k)) tls \<inter> road_idxs m. st ! nat i = CHR ''G'') \<and>
         (l \<in> rail_idxs m \<longrightarrow> st ! nat l = CHR ''r''))"
proof -
  let ?w = "ws ! k"
  let ?tr = "tick_train tls_meta ?w Lk"
  let ?E = "ems_links ?w (getIDList ?w) tls"
  from assms(2,4) have nb: "near_blocked tls_meta ?w tls v l" by simp
  then have d: "distinct (getIDList ?w)" and v: "v \<in> set (getIDList ?w)"
    and o: "train_obs tls_meta ?w v tls l" and e: "?E \<noteq> {}"
    by (simp_all add: near_blocked_def)
  from e have bl: "tls \<in> blocked_tls (ems_claims ?w)" by (simp add: ems_claims_blocked ems_dom)
  from o have ne: "getNextTLS ?w v \<noteq> []" by (auto simp: train_obs_def)
  have hl: "hold_left out (tls, v) = train_hold_left ?tr (tls, v)"
    unfolding tick_hold_left[OF assms(6)] using v ne by (simp add: prune_def)
  have b: "hold_get Lk (tls, v) = max 0 (TRAIN_HOLD_MAX - int k)"
    using near_blocked_budget[OF assms(2,3) _ assms(5)] assms(4) by simp
  have hold: "SlowDown v (if next_dist ?w v < 25 then 0.1
                   else if next_dist ?w v < 70 then 3 else 6) 3 \<in> set (cmds out) \<and>
       \<not> released v (cmds out) \<and>
       hold_left out (tls, v) = Some (TRAIN_HOLD_MAX - int k - 1) \<and>
       (\<forall>S l'. train_green ?tr tls = Some S \<and> l' \<in> S \<longrightarrow>
          (\<exists>u\<in>set (getIDList ?w). u \<noteq> v \<and> train_obs tls_meta ?w u tls l'))"
    if k: "k < 12"
  proof -
    from b k have p: "0 < hold_get Lk (tls, v)" and q: "hold_get Lk (tls, v) = TRAIN_HOLD_MAX - int k"
      by (simp_all add: TRAIN_HOLD_MAX_def)
    note h = tick_train_hold[OF d v o bl p]
    from h(2) have 1: "SlowDown v (if next_dist ?w v < 25 then 0.1
                   else if next_dist ?w v < 70 then 3 else 6) 3 \<in> set (cmds out)"
      unfolding tick_speed_cmd(1)[OF assms(6)] slow_target_def .
    from h(3) have 2: "\<not> released v (cmds out)"
      unfolding tick_released[OF assms(6)] .
    from h(1) q hl have 3: "hold_left out (tls, v) = Some (TRAIN_HOLD_MAX - int k - 1)"
      by simp
    have "\<exists>u\<in>set (getIDList ?w). u \<noteq> v \<and> train_obs tls_meta ?w u tls l'"
      if "train_green ?tr tls = Some S" "l' \<in> S" for S l'
    proof -
      from tick_train_green_from[OF that] obtain u where
        u: "u \<in> set (getIDList ?w)" "train_obs tls_meta ?w u tls l'" "released u (train_cmds ?tr)"
        by blast
      with h(3) have "u \<noteq> v" by blast
      with u show ?thesis by blast
    qed
    then have 4: "\<forall>S l'. train_green ?tr tls = Some S \<and> l' \<in> S \<longrightarrow>
          (\<exists>u\<in>set (getIDList ?w). u \<noteq> v \<and> train_obs tls_meta ?w u tls l')"
      by blast
    from 1 2 3 4 show ?thesis by (intro conjI)
  qed
  have rel: "SetSpeed v (- 1) \<in> set (cmds out) \<and> \<not> slowed v (cmds out) \<and>
       (\<exists>S. train_green ?tr tls = Some S \<and> l \<in> S) \<and> hold_left out (tls, v) = Some 0"
    if k: "12 \<le> k"
  proof -
    from b k have z: "hold_get Lk (tls, v) = 0" by (simp add: TRAIN_HOLD_MAX_def)
    then have n: "\<not> 0 < hold_get Lk (tls, v)" by simp
    from z have s: "Lk (tls, v) = Some 0"
      by (cases "Lk (tls, v)") (simp_all add: hold_get_def TRAIN_HOLD_MAX_def)
    have ns: "\<not> slowed v (train_cmds ?tr)"
    proof
      assume "slowed v (train_cmds ?tr)"
      from tick_train_slowed[OF this] obtain t' l' where
        "train_obs tls_meta ?w v t' l'" "0 < hold_get Lk (t', v)" by blast
      with train_obs_unique[OF o this(1)] n show False by simp
    qed
    note r = tick_train_release[OF v o bl n]
    from r(1) have 1: "SetSpeed v (- 1) \<in> set (cmds out)"
      unfolding tick_speed_cmd(2)[OF assms(6)] .
    from ns have 2: "\<not> slowed v (cmds out)"
      unfolding tick_slowed[OF assms(6)] .
    from r(2) have 3: "\<exists>S. train_green ?tr tls = Some S \<and> l \<in> S" by (simp add: base_mem)
    from tick_train_keep[OF n, of tls_meta ?w] s hl have 4: "hold_left out (tls, v) = Some 0"
      by simp
    from 1 2 3 4 show ?thesis by (intro conjI)
  qed
  have dec: "\<exists>m st. map_of tls_meta tls = Some m \<and>
         tick_decision tls_meta ?w Lk tls =
           Some \<lparr>greens = ?E, force_red = rail_idxs m,
                 event_type = ''ems_preempt'', source = ''ems''\<rparr> \<and>
         build_state (n_links m) ?E (rail_idxs m) = Inr st \<and>
         SetRedYellowGreenState tls st \<in> set (cmds out) \<and>
         (\<forall>st'. SetRedYellowGreenState tls st' \<in> set (cmds out) \<longrightarrow> st' = st) \<and>
         (\<forall>j\<in>rail_idxs m. st ! nat j = CHR ''r'') \<and>
         (\<forall>i\<in>?E \<inter> road_idxs m. st ! nat i = CHR ''G'') \<and>
         (l \<in> rail_idxs m \<longrightarrow> st ! nat l = CHR ''r'')"
  proof -
    from e have eg: "ems_green (ems_claims ?w) tls = Some ?E"
      by (simp add: ems_claims_green)
    then have "tls \<in> touched tls_meta ?w Lk" by (auto simp: touched_def)
    from tick_state_written[OF assms(6) this] obtain m dd st where
      m: "map_of tls_meta tls = Some m" and dd: "tick_decision tls_meta ?w Lk tls = Some dd" and
      bs: "build_state (n_links m) (greens dd) (force_red dd) = Inr st" and
      cm: "SetRedYellowGreenState tls st \<in> set (cmds out)" and
      un: "\<forall>st'. SetRedYellowGreenState tls st' \<in> set (cmds out) \<longrightarrow> st' = st"
      by blast
    from m dd eg have d': "dd = \<lparr>greens = ?E, force_red = rail_idxs m,
                   event_type = ''ems_preempt'', source = ''ems''\<rparr>"
      by (simp add: tick_decision_def resolve_ems)
    from dd d' have d'': "tick_decision tls_meta ?w Lk tls =
           Some \<lparr>greens = ?E, force_red = rail_idxs m,
                 event_type = ''ems_preempt'', source = ''ems''\<rparr>"
      by simp
    have ok: "meta_ok m" using assms(1) m by (rule build_tls_meta_ok)
    have fr: "finite (rail_idxs m)" using ok by (simp add: meta_ok_finite)
    have fg: "finite ?E" by (rule ems_links_finite)
    from bs d' have b': "build_state (n_links m) ?E (rail_idxs m) = Inr st" by simp
    have nn: "\<forall>j\<in>rail_idxs m. 0 \<le> j" using meta_ok_range[OF ok] by blast
    have red: "\<forall>j\<in>rail_idxs m. st ! nat j = CHR ''r''"
      using build_state_forced[OF b' fg fr] nn by blast
    have green: "\<forall>i\<in>?E \<inter> road_idxs m. st ! nat i = CHR ''G''"
    proof
      fix i assume i: "i \<in> ?E \<inter> road_idxs m"
      then have "0 \<le> i" using meta_ok_range[OF ok, of i] by simp
      moreover from i have "i \<notin> rail_idxs m" using meta_ok_disj[OF ok, of i] by blast
      ultimately show "st ! nat i = CHR ''G''"
        using build_state_green[OF b' fg fr _ _ _ nn, of i] i by simp
    qed
    from red have own: "l \<in> rail_idxs m \<longrightarrow> st ! nat l = CHR ''r''" by blast
    from m d'' b' cm un red green own show ?thesis by (intro exI[of _ m] exI[of _ st] conjI)
  qed
  from hold have hold': "k < 12 \<longrightarrow>
       SlowDown v (if next_dist ?w v < 25 then 0.1
                   else if next_dist ?w v < 70 then 3 else 6) 3 \<in> set (cmds out) \<and>
       \<not> released v (cmds out) \<and>
       hold_left out (tls, v) = Some (TRAIN_HOLD_MAX - int k - 1) \<and>
       (\<forall>S l'. train_green ?tr tls = Some S \<and> l' \<in> S \<longrightarrow>
          (\<exists>u\<in>set (getIDList ?w). u \<noteq> v \<and> train_obs tls_meta ?w u tls l'))"
    by (rule impI)
  from rel have rel': "12 \<le> k \<longrightarrow>
       SetSpeed v (- 1) \<in> set (cmds out) \<and> \<not> slowed v (cmds out) \<and>
       (\<exists>S. train_green ?tr tls = Some S \<and> l \<in> S) \<and> hold_left out (tls, v) = Some 0"
    by (rule impI)
  from b hold' rel' dec show ?thesis by (intro conjI)
qed

theorem hold_twelve_then_release_witness:
  "build_tls_meta x_edge x_links [''X''] = Inr x_meta \<and>
   near_blocked x_meta w_block ''X'' ''t1'' 1 \<and>
   hold_get Map.empty (''X'', ''t1'') = TRAIN_HOLD_MAX \<and>
   run_ticks x_meta (take 12 (replicate 13 w_block)) Map.empty = Inr spent \<and>
   tick x_meta w_block spent =
     Inr \<lparr>events = [(1, ''ems_preempt'', ''ems'', ''X'', ''Gr'')],
          cmds = [SetLaneChangeMode ''amb'' 0, SetSpeedMode ''amb'' 0, SetSpeed ''t1'' (- 1),
                  SetRedYellowGreenState ''X'' ''Gr'', SetPhaseDuration ''X'' PULSE],
          hold_left = prune w_block spent\<rparr> \<and>
   hold_get spent (''X'', ''t1'') = 0 \<and>
   prune w_block spent (''X'', ''t1'') = Some 0 \<and>
   near_blocked x_meta (w_near 100) ''X'' ''t1'' 1 \<and>
   tick x_meta (w_near 100) Map.empty =
     Inr \<lparr>events = [(1, ''ems_preempt'', ''ems'', ''X'', ''Gr'')],
          cmds = [SetLaneChangeMode ''amb'' 0, SetSpeedMode ''amb'' 0, SlowDown ''t1'' 6 3,
                  SetRedYellowGreenState ''X'' ''Gr'', SetPhaseDuration ''X'' PULSE],
          hold_left = budget 11\<rparr> \<and>
   near_blocked x_meta (w_near 50) ''X'' ''t1'' 1 \<and>
   tick x_meta (w_near 50) Map.empty =
     Inr \<lparr>events = [(1, ''ems_preempt'', ''ems'', ''X'', ''Gr'')],
          cmds = [SetLaneChangeMode ''amb'' 0, SetSpeedMode ''amb'' 0, SlowDown ''t1'' 3 3,
                  SetRedYellowGreenState ''X'' ''Gr'', SetPhaseDuration ''X'' PULSE],
          hold_left = budget 11\<rparr> \<and>
   near_blocked x_meta (w_near 10) ''X'' ''t1'' 1 \<and>
   tick x_meta (w_near 10) Map.empty =
     Inr \<lparr>events = [(1, ''ems_preempt'', ''ems'', ''X'', ''Gr'')],
          cmds = [SetLaneChangeMode ''amb'' 0, SetSpeedMode ''amb'' 0, SlowDown ''t1'' 0.1 3,
                  SetRedYellowGreenState ''X'' ''Gr'', SetPhaseDuration ''X'' PULSE],
          hold_left = budget 11\<rparr> \<and>
   budget 11 (''X'', ''t1'') = Some 11"
proof -
  have a: "\<forall>w\<in>set (replicate 13 w_block). near_blocked x_meta w ''X'' ''t1'' 1"
    by (simp add: w_block_blocked)
  have h: "hold_get Map.empty (''X'', ''t1'') = TRAIN_HOLD_MAX" by (simp add: hold_get_def)
  have r: "run_ticks x_meta (take 12 (replicate 13 w_block)) Map.empty = Inr spent"
    using run_twelve by simp
  have t: "tick x_meta (replicate 13 w_block ! 12) spent =
     Inr \<lparr>events = [(1, ''ems_preempt'', ''ems'', ''X'', ''Gr'')],
          cmds = [SetLaneChangeMode ''amb'' 0, SetSpeedMode ''amb'' 0, SetSpeed ''t1'' (- 1),
                  SetRedYellowGreenState ''X'' ''Gr'', SetPhaseDuration ''X'' PULSE],
          hold_left = prune w_block spent\<rparr>"
    by (simp add: w_block_tick_spent)
  from hold_twelve_then_release[OF x_meta_built a h _ r t] have
    1: "hold_get spent (''X'', ''t1'') = 0" "prune w_block spent (''X'', ''t1'') = Some 0"
    by (simp_all add: TRAIN_HOLD_MAX_def)
  have band: "near_blocked x_meta (w_near d) ''X'' ''t1'' 1 \<and>
      tick x_meta (w_near d) Map.empty =
        Inr \<lparr>events = [(1, ''ems_preempt'', ''ems'', ''X'', ''Gr'')],
          cmds = [SetLaneChangeMode ''amb'' 0, SetSpeedMode ''amb'' 0,
                  SlowDown ''t1'' (slow_target d) 3,
                  SetRedYellowGreenState ''X'' ''Gr'', SetPhaseDuration ''X'' PULSE],
          hold_left = budget 11\<rparr> \<and>
      budget 11 (''X'', ''t1'') = Some 11"
    if d: "d < 180" for d
  proof -
    have a': "\<forall>w\<in>set [w_near d]. near_blocked x_meta w ''X'' ''t1'' 1"
      using d by (simp add: w_near_blocked)
    have r': "run_ticks x_meta (take 0 [w_near d]) Map.empty = Inr Map.empty" by simp
    have t': "tick x_meta ([w_near d] ! 0) Map.empty =
        Inr \<lparr>events = [(1, ''ems_preempt'', ''ems'', ''X'', ''Gr'')],
          cmds = [SetLaneChangeMode ''amb'' 0, SetSpeedMode ''amb'' 0,
                  SlowDown ''t1'' (slow_target d) 3,
                  SetRedYellowGreenState ''X'' ''Gr'', SetPhaseDuration ''X'' PULSE],
          hold_left = budget 11\<rparr>"
      using d by (simp add: w_near_tick_fresh)
    from hold_twelve_then_release[OF x_meta_built a' h _ r' t']
    have "budget 11 (''X'', ''t1'') = Some 11" by (simp add: TRAIN_HOLD_MAX_def)
    with t' d show ?thesis by (simp add: w_near_blocked)
  qed
  have b100: "slow_target 100 = 6" and b50: "slow_target 50 = 3" and b10: "slow_target 10 = 0.1"
    by (simp_all add: slow_target_def)
  from band[of 100] band[of 50] band[of 10] have
    2: "near_blocked x_meta (w_near 100) ''X'' ''t1'' 1"
       "tick x_meta (w_near 100) Map.empty =
     Inr \<lparr>events = [(1, ''ems_preempt'', ''ems'', ''X'', ''Gr'')],
          cmds = [SetLaneChangeMode ''amb'' 0, SetSpeedMode ''amb'' 0, SlowDown ''t1'' 6 3,
                  SetRedYellowGreenState ''X'' ''Gr'', SetPhaseDuration ''X'' PULSE],
          hold_left = budget 11\<rparr>"
       "near_blocked x_meta (w_near 50) ''X'' ''t1'' 1"
       "tick x_meta (w_near 50) Map.empty =
     Inr \<lparr>events = [(1, ''ems_preempt'', ''ems'', ''X'', ''Gr'')],
          cmds = [SetLaneChangeMode ''amb'' 0, SetSpeedMode ''amb'' 0, SlowDown ''t1'' 3 3,
                  SetRedYellowGreenState ''X'' ''Gr'', SetPhaseDuration ''X'' PULSE],
          hold_left = budget 11\<rparr>"
       "near_blocked x_meta (w_near 10) ''X'' ''t1'' 1"
       "tick x_meta (w_near 10) Map.empty =
     Inr \<lparr>events = [(1, ''ems_preempt'', ''ems'', ''X'', ''Gr'')],
          cmds = [SetLaneChangeMode ''amb'' 0, SetSpeedMode ''amb'' 0, SlowDown ''t1'' 0.1 3,
                  SetRedYellowGreenState ''X'' ''Gr'', SetPhaseDuration ''X'' PULSE],
          hold_left = budget 11\<rparr>"
       "budget 11 (''X'', ''t1'') = Some 11"
    unfolding b100 b50 b10 by simp_all
  show ?thesis
    by (intro conjI x_meta_built w_block_blocked h r w_block_tick_spent 1 2)
qed

subsection \<open>A budget that is used up\<close>

lemma tick_entry_spent:
  assumes "tick M w L = Inr out" "L (tls, v) = Some b" "b \<le> 0"
  shows "train_hold_left (tick_train M w L) (tls, v) = Some b"
    "hold_left out (tls, v) =
       (if v \<in> set (getIDList w) \<and> getNextTLS w v \<noteq> [] then Some b else None)"
proof -
  from assms(2,3) have n: "\<not> 0 < hold_get L (tls, v)" by (simp add: hold_get_def)
  from tick_train_keep[OF n, of M w] assms(2)
  show k: "train_hold_left (tick_train M w L) (tls, v) = Some b" by simp
  then show "hold_left out (tls, v) =
       (if v \<in> set (getIDList w) \<and> getNextTLS w v \<noteq> [] then Some b else None)"
    unfolding tick_hold_left[OF assms(1)] by (simp add: prune_def)
qed

lemma run_ticks_entry_spent:
  "L (tls, v) = Some b \<Longrightarrow> b \<le> 0 \<Longrightarrow>
   \<forall>w\<in>set ws. v \<in> set (getIDList w) \<and> getNextTLS w v \<noteq> [] \<Longrightarrow>
   run_ticks M ws L = Inr L' \<Longrightarrow> L' (tls, v) = Some b"
proof (induction ws arbitrary: L)
  case Nil
  then show ?case by simp
next
  case (Cons w ws)
  from Cons.prems(4) obtain out where t: "tick M w L = Inr out"
    and r: "run_ticks M ws (hold_left out) = Inr L'"
    by (auto split: sum.splits)
  from Cons.prems(3) have kw: "v \<in> set (getIDList w) \<and> getNextTLS w v \<noteq> []"
    and rest: "\<forall>w\<in>set ws. v \<in> set (getIDList w) \<and> getNextTLS w v \<noteq> []"
    by simp_all
  from tick_entry_spent(2)[OF t Cons.prems(1,2)] kw have "hold_left out (tls, v) = Some b"
    by simp
  from Cons.IH[OF this Cons.prems(2) rest r] show ?case .
qed

text \<open>
  C6, as the code has it.  Let the ledger entry of a pair (intersection, train) be used up
  (at most 0), and let the loop run on for \<open>k\<close> passes in which the train stays known to the
  simulator and reports some next intersection.  Then the entry is still there, unchanged,
  and in the next pass: the train is not slowed for that pair, step 2 leaves the entry as
  it is, and after the cleaning the entry is kept with the same value if the train is still
  known and reports some next intersection, and is removed otherwise.  If in that pass
  the train is inside the warn distance of the crossing and an emergency vehicle claims the
  crossing, the pass sets the train free-running and puts its link into \<^verbatim>\<open>train_green\<close>,
  while the decision for the crossing is the EMS one (green set = the EMS links, the whole
  rail group forced red); the state built from it is the one sent to the crossing.
\<close>
theorem exhausted_budget_release:
  assumes "L (tls, v) = Some b" "b \<le> 0"
    "\<forall>w\<in>set (take k ws). v \<in> set (getIDList w) \<and> getNextTLS w v \<noteq> []"
    "k < length ws" "run_ticks tls_meta (take k ws) L = Inr Lk"
    "tick tls_meta (ws ! k) Lk = Inr out"
  shows "Lk (tls, v) = Some b \<and>
         \<not> held tls_meta (ws ! k) Lk tls v \<and>
         ((case getNextTLS (ws ! k) v of [] \<Rightarrow> False | (t, _) # _ \<Rightarrow> t = tls) \<longrightarrow>
            \<not> slowed v (cmds out)) \<and>
         train_hold_left (tick_train tls_meta (ws ! k) Lk) (tls, v) = Some b \<and>
         hold_left out (tls, v) =
           (if v \<in> set (getIDList (ws ! k)) \<and> getNextTLS (ws ! k) v \<noteq> [] then Some b else None) \<and>
         (v \<in> set (getIDList (ws ! k)) \<and> train_obs tls_meta (ws ! k) v tls l \<and>
          ems_links (ws ! k) (getIDList (ws ! k)) tls \<noteq> {} \<longrightarrow>
            SetSpeed v (- 1) \<in> set (cmds out) \<and>
            (\<exists>S. train_green (tick_train tls_meta (ws ! k) Lk) tls = Some S \<and> l \<in> S) \<and>
            (\<exists>m st. map_of tls_meta tls = Some m \<and>
               tick_decision tls_meta (ws ! k) Lk tls =
                 Some \<lparr>greens = ems_links (ws ! k) (getIDList (ws ! k)) tls,
                       force_red = rail_idxs m,
                       event_type = ''ems_preempt'', source = ''ems''\<rparr> \<and>
               build_state (n_links m) (ems_links (ws ! k) (getIDList (ws ! k)) tls)
                 (rail_idxs m) = Inr st \<and>
               SetRedYellowGreenState tls st \<in> set (cmds out) \<and>
               (\<forall>st'. SetRedYellowGreenState tls st' \<in> set (cmds out) \<longrightarrow> st' = st)))"
proof -
  let ?w = "ws ! k"
  let ?tr = "tick_train tls_meta ?w Lk"
  let ?E = "ems_links ?w (getIDList ?w) tls"
  have e0: "Lk (tls, v) = Some b"
    using assms(1,2,3,5) by (rule run_ticks_entry_spent)
  with assms(2) have n: "\<not> 0 < hold_get Lk (tls, v)" by (simp add: hold_get_def)
  have 1: "\<not> held tls_meta ?w Lk tls v"
    using held_budget(3)[of tls_meta ?w Lk tls v] n by blast
  then have 2: "(case getNextTLS ?w v of [] \<Rightarrow> False | (t, _) # _ \<Rightarrow> t = tls) \<longrightarrow>
            \<not> slowed v (cmds out)"
    unfolding tick_slowed[OF assms(6)] held_def by blast
  note 3 = tick_entry_spent[OF assms(6) e0 assms(2)]
  have 4: "SetSpeed v (- 1) \<in> set (cmds out) \<and>
            (\<exists>S. train_green ?tr tls = Some S \<and> l \<in> S) \<and>
            (\<exists>m st. map_of tls_meta tls = Some m \<and>
               tick_decision tls_meta ?w Lk tls =
                 Some \<lparr>greens = ?E, force_red = rail_idxs m,
                       event_type = ''ems_preempt'', source = ''ems''\<rparr> \<and>
               build_state (n_links m) ?E (rail_idxs m) = Inr st \<and>
               SetRedYellowGreenState tls st \<in> set (cmds out) \<and>
               (\<forall>st'. SetRedYellowGreenState tls st' \<in> set (cmds out) \<longrightarrow> st' = st))"
    if c: "v \<in> set (getIDList ?w) \<and> train_obs tls_meta ?w v tls l \<and> ?E \<noteq> {}"
  proof -
    from c have v: "v \<in> set (getIDList ?w)" and o: "train_obs tls_meta ?w v tls l"
      and e: "?E \<noteq> {}" by simp_all
    from e have bl: "tls \<in> blocked_tls (ems_claims ?w)"
      by (simp add: ems_claims_blocked ems_dom)
    note r = tick_train_release[OF v o bl n]
    from r(1) have a: "SetSpeed v (- 1) \<in> set (cmds out)"
      unfolding tick_speed_cmd(2)[OF assms(6)] .
    from r(2) have g: "\<exists>S. train_green ?tr tls = Some S \<and> l \<in> S" by (simp add: base_mem)
    from e have eg: "ems_green (ems_claims ?w) tls = Some ?E"
      by (simp add: ems_claims_green)
    then have "tls \<in> touched tls_meta ?w Lk" by (auto simp: touched_def)
    from tick_state_written[OF assms(6) this] obtain m dd st where
      m: "map_of tls_meta tls = Some m" and dd: "tick_decision tls_meta ?w Lk tls = Some dd" and
      bs: "build_state (n_links m) (greens dd) (force_red dd) = Inr st" and
      cm: "SetRedYellowGreenState tls st \<in> set (cmds out)" and
      un: "\<forall>st'. SetRedYellowGreenState tls st' \<in> set (cmds out) \<longrightarrow> st' = st"
      by blast
    from m dd eg have d': "dd = \<lparr>greens = ?E, force_red = rail_idxs m,
                   event_type = ''ems_preempt'', source = ''ems''\<rparr>"
      by (simp add: tick_decision_def resolve_ems)
    from dd d' have d'': "tick_decision tls_meta ?w Lk tls =
           Some \<lparr>greens = ?E, force_red = rail_idxs m,
                 event_type = ''ems_preempt'', source = ''ems''\<rparr>"
      by simp
    from bs d' have b': "build_state (n_links m) ?E (rail_idxs m) = Inr st" by simp
    from m d'' b' cm un have "\<exists>m st. map_of tls_meta tls = Some m \<and>
               tick_decision tls_meta ?w Lk tls =
                 Some \<lparr>greens = ?E, force_red = rail_idxs m,
                       event_type = ''ems_preempt'', source = ''ems''\<rparr> \<and>
               build_state (n_links m) ?E (rail_idxs m) = Inr st \<and>
               SetRedYellowGreenState tls st \<in> set (cmds out) \<and>
               (\<forall>st'. SetRedYellowGreenState tls st' \<in> set (cmds out) \<longrightarrow> st' = st)"
      by (intro exI[of _ m] exI[of _ st] conjI)
    with a g show ?thesis by (intro conjI)
  qed
  then have rl: "v \<in> set (getIDList ?w) \<and> train_obs tls_meta ?w v tls l \<and> ?E \<noteq> {} \<longrightarrow>
            SetSpeed v (- 1) \<in> set (cmds out) \<and>
            (\<exists>S. train_green ?tr tls = Some S \<and> l \<in> S) \<and>
            (\<exists>m st. map_of tls_meta tls = Some m \<and>
               tick_decision tls_meta ?w Lk tls =
                 Some \<lparr>greens = ?E, force_red = rail_idxs m,
                       event_type = ''ems_preempt'', source = ''ems''\<rparr> \<and>
               build_state (n_links m) ?E (rail_idxs m) = Inr st \<and>
               SetRedYellowGreenState tls st \<in> set (cmds out) \<and>
               (\<forall>st'. SetRedYellowGreenState tls st' \<in> set (cmds out) \<longrightarrow> st' = st))"
    by (rule impI)
  from e0 1 2 3 rl show ?thesis by (intro conjI)
qed

theorem exhausted_budget_release_witness:
  "spent (''X'', ''t1'') = Some 0 \<and>
   run_ticks x_meta (take 1 [w_block, w_block]) spent = Inr spent \<and>
   tick x_meta w_block spent =
     Inr \<lparr>events = [(1, ''ems_preempt'', ''ems'', ''X'', ''Gr'')],
          cmds = [SetLaneChangeMode ''amb'' 0, SetSpeedMode ''amb'' 0, SetSpeed ''t1'' (- 1),
                  SetRedYellowGreenState ''X'' ''Gr'', SetPhaseDuration ''X'' PULSE],
          hold_left = prune w_block spent\<rparr> \<and>
   \<not> held x_meta w_block spent ''X'' ''t1'' \<and>
   train_hold_left (tick_train x_meta w_block spent) (''X'', ''t1'') = Some 0 \<and>
   prune w_block spent (''X'', ''t1'') = Some 0 \<and>
   ''t1'' \<in> set (getIDList w_block) \<and> train_obs x_meta w_block ''t1'' ''X'' 1 \<and>
   ems_links w_block (getIDList w_block) ''X'' = {0} \<and>
   train_green (tick_train x_meta w_block spent) ''X'' = Some {1}"
proof -
  have a: "spent (''X'', ''t1'') = Some 0" by (simp add: spent_def)
  have p: "prune w_block spent = spent"
    unfolding spent_budget by (rule prune_w_block)
  have k: "\<forall>w\<in>set (take 1 [w_block, w_block]).
             ''t1'' \<in> set (getIDList w) \<and> getNextTLS w ''t1'' \<noteq> []"
    by (simp add: w_block_def)
  have r: "run_ticks x_meta (take 1 [w_block, w_block]) spent = Inr spent"
    by (simp add: w_block_tick_spent p)
  have t: "tick x_meta ([w_block, w_block] ! 1) spent =
     Inr \<lparr>events = [(1, ''ems_preempt'', ''ems'', ''X'', ''Gr'')],
          cmds = [SetLaneChangeMode ''amb'' 0, SetSpeedMode ''amb'' 0, SetSpeed ''t1'' (- 1),
                  SetRedYellowGreenState ''X'' ''Gr'', SetPhaseDuration ''X'' PULSE],
          hold_left = prune w_block spent\<rparr>"
    by (simp add: w_block_tick_spent)
  have v: "''t1'' \<in> set (getIDList w_block)" by (simp add: w_block_def)
  have ne: "getNextTLS w_block ''t1'' \<noteq> []" by (simp add: w_block_def)
  have o: "train_obs x_meta w_block ''t1'' ''X'' 1"
    by (simp add: train_obs_def is_train_def w_block_def TRAIN_WARN_DIST_def x_meta_def)
  from exhausted_budget_release[OF a _ k _ r t, of 1]
  have 1: "\<not> held x_meta w_block spent ''X'' ''t1''"
    "train_hold_left (tick_train x_meta w_block spent) (''X'', ''t1'') = Some 0"
    "prune w_block spent (''X'', ''t1'') = Some 0"
    using v ne by simp_all
  have g: "train_green (tick_train x_meta w_block spent) ''X'' = Some {1}"
    by (simp add: w_block_train_spent)
  show ?thesis
    by (intro conjI a r w_block_tick_spent 1 v o w_block_ems_links g)
qed

subsection \<open>Startup classification\<close>

text \<open>
  C9, as the code has it.  An intersection that reports zero controlled links is classified
  without any error: \<^verbatim>\<open>analyze_tls\<close> returns the record with \<open>n = 0\<close>, empty rail and road
  groups, an empty edge map and \<open>is_crossing = False\<close>.
\<close>
theorem analyze_tls_no_links:
  "analyze_tls getEdgeID [] =
     Inr \<lparr>n_links = 0, rail_idxs = {}, road_idxs = {},
          inc_edge_to_link_idxs = Map.empty, is_crossing = False\<rparr>"
  by (simp add: analyze_tls_def)

text \<open>
  C9, the claim as stated fails.  The claim expects a configuration error at startup.  For
  a network whose only intersection \<^verbatim>\<open>X\<close> controls no link, building \<^verbatim>\<open>tls_meta\<close> raises
  nothing and yields the default record.
\<close>
theorem zero_links_error_counterexample:
  "build_tls_meta x_edge no_links [''X''] =
     Inr [(''X'', \<lparr>n_links = 0, rail_idxs = {}, road_idxs = {},
                   inc_edge_to_link_idxs = Map.empty, is_crossing = False\<rparr>)]"
  by (simp add: analyze_tls_def no_links_def)

end
